theory Spec2Isabelle
  imports Complex_Main "HOL-Library.FSet"
begin

section \<open>The Rubik's cube game of \<^verbatim>\<open>RubikGame/main.py\<close>\<close>

text \<open>
  The class \<^verbatim>\<open>MyGame\<close> is embedded as a record of its fields and one function per
  method, each taking the game and returning the game after the call. The engine the
  class is built on is outside the repository, and is taken as follows.
  \<^item> A collision traverser is an oracle \<open>trav\<close>: asked at a \<^verbatim>\<open>traverse\<close> call for a
    face, it answers with the cubies whose in-event the face's handler throws for the
    face's own box, in the order thrown. Each such event calls \<^verbatim>\<open>collide\<close> with the
    \<^verbatim>\<open>num\<close> bound at \<^verbatim>\<open>self.accept(pattern, self.collide, [num])\<close>; the calls are made
    at the \<^verbatim>\<open>traverse\<close> call.
  \<^item> The random module is an entropy function: \<^verbatim>\<open>randint\<close> and \<^verbatim>\<open>choices\<close> reduce the
    numbers it supplies into their ranges.
  \<^item> A started \<^verbatim>\<open>Sequence\<close> is a list of steps kept in the game; the interval manager
    runs the steps later, one at a time (\<open>advance\<close>).
  \<^item> \<^verbatim>\<open>accept_once("keystroke", ...)\<close> is the flag \<open>keystroke_armed\<close>: a keystroke event
    is handled only when the flag is set, and handling it takes the flag down first.
  \<^item> Angles and offsets are exact numbers; geometry (positions, bounds, rendering) is
    not modelled, the calls that move a cubie are recorded in \<open>trace\<close> instead.
  Keys are 8-bit characters.
\<close>

subsection \<open>The face registry \<^verbatim>\<open>mapping_sides\<close>\<close>

datatype face =
    TOP_SIDE | BOTTOM_SIDE | LEFT_SIDE | RIGHT_SIDE | FRONT_SIDE | BACK_SIDE
  | CENTER_VERTICAL_SIDE | CENTER_DOUBLE_SIDE | CENTER_HORIZONTAL_SIDE

type_synonym vec3 = "real \<times> real \<times> real"

type_synonym cubie = nat

text \<open>The keys of the dictionary, in insertion order.\<close>

definition mapping_sides :: "face list" where
  "mapping_sides =
     [TOP_SIDE, BOTTOM_SIDE, LEFT_SIDE, RIGHT_SIDE, FRONT_SIDE, BACK_SIDE,
      CENTER_VERTICAL_SIDE, CENTER_DOUBLE_SIDE, CENTER_HORIZONTAL_SIDE]"

fun side_key :: "face \<Rightarrow> char" where
  "side_key TOP_SIDE = CHR ''t''"
| "side_key BOTTOM_SIDE = CHR ''d''"
| "side_key LEFT_SIDE = CHR ''l''"
| "side_key RIGHT_SIDE = CHR ''r''"
| "side_key FRONT_SIDE = CHR ''f''"
| "side_key BACK_SIDE = CHR ''b''"
| "side_key CENTER_VERTICAL_SIDE = CHR ''v''"
| "side_key CENTER_DOUBLE_SIDE = CHR ''c''"
| "side_key CENTER_HORIZONTAL_SIDE = CHR ''h''"

fun side_rotation :: "face \<Rightarrow> vec3" where
  "side_rotation TOP_SIDE = (-90, 0, 0)"
| "side_rotation BOTTOM_SIDE = (-90, 0, 0)"
| "side_rotation LEFT_SIDE = (0, 90, 0)"
| "side_rotation RIGHT_SIDE = (0, -90, 0)"
| "side_rotation FRONT_SIDE = (0, 0, 90)"
| "side_rotation BACK_SIDE = (0, 0, -90)"
| "side_rotation CENTER_VERTICAL_SIDE = (-90, 0, 0)"
| "side_rotation CENTER_DOUBLE_SIDE = (0, 0, 90)"
| "side_rotation CENTER_HORIZONTAL_SIDE = (0, 90, 0)"

fun side_num :: "face \<Rightarrow> nat" where
  "side_num TOP_SIDE = 9"
| "side_num BOTTOM_SIDE = 9"
| "side_num LEFT_SIDE = 9"
| "side_num RIGHT_SIDE = 9"
| "side_num FRONT_SIDE = 9"
| "side_num BACK_SIDE = 9"
| "side_num CENTER_VERTICAL_SIDE = 8"
| "side_num CENTER_DOUBLE_SIDE = 8"
| "side_num CENTER_HORIZONTAL_SIDE = 8"

subsection \<open>Characters and vectors\<close>

text \<open>
  \<^verbatim>\<open>str.isupper\<close> on one character of the 8-bit range: the capital letters of ASCII and
  of Latin-1 (\<open>0xC0\<close> to \<open>0xDE\<close> without the multiplication sign \<open>0xD7\<close>).
\<close>

definition isupper :: "char \<Rightarrow> bool" where
  "isupper k =
     (let n = (of_char k :: nat)
      in (65 \<le> n \<and> n \<le> 90) \<or> (192 \<le> n \<and> n \<le> 214) \<or> (216 \<le> n \<and> n \<le> 222))"

text \<open>\<^verbatim>\<open>str.upper\<close>, used on the registry's keys only (small ASCII letters).\<close>

definition upper :: "char \<Rightarrow> char" where
  "upper k =
     (let n = (of_char k :: nat)
      in if 97 \<le> n \<and> n \<le> 122 then char_of (n - 32) else k)"

text \<open>\<^verbatim>\<open>keyname in ascii_letters\<close> for a one-character string.\<close>

definition in_ascii_letters :: "char \<Rightarrow> bool" where
  "in_ascii_letters k =
     (let n = (of_char k :: nat)
      in (97 \<le> n \<and> n \<le> 122) \<or> (65 \<le> n \<and> n \<le> 90))"

text \<open>\<^verbatim>\<open>Vec3 * direction\<close>.\<close>

fun scale :: "int \<Rightarrow> vec3 \<Rightarrow> vec3" where
  "scale d (h, p, r) = (h * of_int d, p * of_int d, r * of_int d)"

subsection \<open>The game state\<close>

text \<open>A cubie hangs under the cube model or, during a rotation, under a face's pivot.\<close>

datatype node = Cube_model | Pivot face

text \<open>
  A collision entry: \<^verbatim>\<open>getIntoNodePath()\<close> is the face's box (the pivot),
  \<^verbatim>\<open>getFromNodePath().getParent()\<close> the cubie.
\<close>

record coll_entry =
  into_side :: face
  from_cube :: cubie

text \<open>The steps a \<^verbatim>\<open>Sequence\<close> is made of.\<close>

datatype step =
    HprInterval face real vec3
  | RotateWithoutAnim face
  | ReparentCubes face "cubie fset"
  | ResetStep "cubie fset"
  | TurnOnOffAnimate bool
  | Wait real
  | ForceCollisions char
  | TurnOfRandomize

text \<open>The calls recorded in order: they are how a run is observed.\<close>

datatype event =
    EvTraverse face
  | EvCollide face cubie
  | EvSetFluidPos cubie real
  | EvRotateSide face
  | EvReset
  | EvLookAtCubeSide char

record game =
  direction :: int
  animate :: bool
  randomizing :: bool
  collided_cubes :: "cubie fset"
  cubes :: "cubie list"
  parent :: "cubie \<Rightarrow> node"
  pivot_hpr :: "face \<Rightarrow> vec3"
  tb_hpr :: vec3
  pressed_button :: string
  info_on_screen :: string
  keystroke_armed :: bool
  seqs :: "step list list"
  trace :: "event list"

record env =
  trav :: "face \<Rightarrow> game \<Rightarrow> cubie list"
  entropy :: "game \<Rightarrow> nat \<Rightarrow> nat"

text \<open>
  The game as \<^verbatim>\<open>__init__\<close> leaves it, for the cubies \<open>cs\<close> the model file holds (in the
  order the set \<^verbatim>\<open>self.cubes\<close> iterates).
\<close>

definition init_game :: "cubie list \<Rightarrow> game" where
  "init_game cs =
     \<lparr>direction = -1, animate = True, randomizing = False, collided_cubes = {||},
      cubes = cs, parent = (\<lambda>c. Cube_model), pivot_hpr = (\<lambda>f. (0, 0, 0)),
      tb_hpr = (0, 0, 0), pressed_button = [], info_on_screen = [],
      keystroke_armed = True, seqs = [], trace = []\<rparr>"

definition log :: "event \<Rightarrow> game \<Rightarrow> game" where
  "log e g = g\<lparr>trace := trace g @ [e]\<rparr>"

subsection \<open>Rotation executor\<close>

text \<open>
  The sequence \<^verbatim>\<open>rotate_side\<close> builds: the turn of the pivot (animated over 0.28 seconds to
  the angles computed now, or a call of \<^verbatim>\<open>rotate_without_anim\<close> made when the step runs),
  then \<^verbatim>\<open>reparent_cubes\<close>, then \<^verbatim>\<open>reset\<close>.
\<close>

definition rotation_seq :: "bool \<Rightarrow> int \<Rightarrow> face \<Rightarrow> cubie fset \<Rightarrow> step list" where
  "rotation_seq anim d pivot cs =
     (if anim then [HprInterval pivot 0.28 (scale d (side_rotation pivot))]
      else [RotateWithoutAnim pivot])
     @ [ReparentCubes pivot cs, ResetStep cs]"

definition rotate_side :: "coll_entry \<Rightarrow> game \<Rightarrow> game" where
  "rotate_side coll_entry g0 =
     (let g = log (EvRotateSide (into_side coll_entry)) g0;
          pivot = into_side coll_entry;
          cs = collided_cubes g;
          g1 = g\<lparr>pivot_hpr := (pivot_hpr g)(pivot := (0, 0, 0))\<rparr>;
          g2 = g1\<lparr>parent := (\<lambda>cubo. if cubo |\<in>| cs then Pivot pivot else parent g1 cubo)\<rparr>;
          seq = rotation_seq (animate g2) (direction g2) pivot cs
      in g2\<lparr>seqs := seqs g2 @ [seq]\<rparr>)"

definition rotate_without_anim :: "face \<Rightarrow> game \<Rightarrow> game" where
  "rotate_without_anim name g =
     g\<lparr>pivot_hpr := (pivot_hpr g)(name := scale (direction g) (side_rotation name))\<rparr>"

text \<open>
  \<open>cs\<close> is the copy \<^verbatim>\<open>cubes\<close> the sequence holds: \<^verbatim>\<open>cubes.clear()\<close> empties it after the
  step that reads it.
\<close>

definition reset :: "cubie fset \<Rightarrow> game \<Rightarrow> game" where
  "reset cs g0 =
     (let g = log EvReset g0;
          g1 = g\<lparr>collided_cubes := {||}\<rparr>
      in if \<not> randomizing g1 then g1\<lparr>keystroke_armed := True\<rparr> else g1)"

definition reparent_cubes :: "face \<Rightarrow> cubie fset \<Rightarrow> game \<Rightarrow> game" where
  "reparent_cubes pivot cs g =
     g\<lparr>parent := (\<lambda>cube. if cube |\<in>| cs then Cube_model else parent g cube)\<rparr>"

definition collide :: "nat \<Rightarrow> coll_entry \<Rightarrow> game \<Rightarrow> game" where
  "collide num collEntry g0 =
     (let g = log (EvCollide (into_side collEntry) (from_cube collEntry)) g0;
          cude_node = from_cube collEntry;
          g1 = g\<lparr>collided_cubes := finsert cude_node (collided_cubes g)\<rparr>
      in if fcard (collided_cubes g1) \<ge> num then rotate_side collEntry g1 else g1)"

subsection \<open>Camera presets and on-screen text\<close>

definition print_info_on_screen :: "string \<Rightarrow> game \<Rightarrow> game" where
  "print_info_on_screen msg g = g\<lparr>info_on_screen := msg\<rparr>"

definition look_at_cube_side :: "char \<Rightarrow> game \<Rightarrow> game" where
  "look_at_cube_side key g0 =
     (let g = log (EvLookAtCubeSide key) g0;
          (tmp_txt, tmp_hpr) =
            (if key = CHR ''1'' then (''Front'', (0, 0, 0))
             else if key = CHR ''2'' then (''Back'', (0, 180, 180))
             else if key = CHR ''3'' then (''Left'', (90, 0, 0))
             else if key = CHR ''4'' then (''Right'', (-90, 0, 0))
             else if key = CHR ''5'' then (''Top'', (0, 90, 0))
             else if key = CHR ''6'' then (''Bottom'', (0, -90, 0))
             else (''Opposite side'',
                   (case tb_hpr g of (h, p, r) \<Rightarrow> (h, p, r - 90))))
      in print_info_on_screen tmp_txt (g\<lparr>tb_hpr := tmp_hpr\<rparr>))"

definition print_key_on_screen :: "char \<Rightarrow> game \<Rightarrow> game" where
  "print_key_on_screen keyname g =
     (if in_ascii_letters keyname then g\<lparr>pressed_button := [keyname]\<rparr> else g)"

subsection \<open>Shuffle scheduler\<close>

definition turn_on_off_anmiate :: "bool \<Rightarrow> game \<Rightarrow> game" where
  "turn_on_off_anmiate state g = (if state then g\<lparr>animate := True\<rparr> else g\<lparr>animate := False\<rparr>)"

definition turn_of_randomize :: "game \<Rightarrow> game" where
  "turn_of_randomize g = g\<lparr>randomizing := False, keystroke_armed := True\<rparr>"

text \<open>
  \<^verbatim>\<open>randint(a, b)\<close> is \<open>a\<close> plus a number below \<open>b - a + 1\<close>; \<^verbatim>\<open>choices(population, k=k)\<close>
  takes \<open>k\<close> times an index below the population's length. The numbers come from the
  entropy function, the first for \<^verbatim>\<open>randint\<close> and the following for \<^verbatim>\<open>choices\<close>.
\<close>

definition randint :: "(nat \<Rightarrow> nat) \<Rightarrow> nat \<Rightarrow> nat \<Rightarrow> nat" where
  "randint e a b = a + e 0 mod (b - a + 1)"

definition choices :: "(nat \<Rightarrow> nat) \<Rightarrow> 'a list \<Rightarrow> nat \<Rightarrow> 'a list" where
  "choices e population k = map (\<lambda>i. population ! (e (Suc i) mod length population)) [0..<k]"

definition shuffle_keys :: "char list" where
  "shuffle_keys = concat (map (\<lambda>x. [side_key x, upper (side_key x)]) mapping_sides)"

definition randomize :: "env \<Rightarrow> game \<Rightarrow> game" where
  "randomize en g =
     (if \<not> randomizing g then
        (let g1 = g\<lparr>randomizing := True\<rparr>;
             keys = shuffle_keys;
             choosed_keys = choices (entropy en g) keys (randint (entropy en g) 30 60);
             random_seq =
               [TurnOnOffAnimate False, Wait 1.0]
               @ concat (map (\<lambda>key. [ForceCollisions key, Wait 0.15]) choosed_keys)
               @ [TurnOnOffAnimate True, TurnOfRandomize]
         in g1\<lparr>seqs := seqs g1 @ [random_seq]\<rparr>)
      else g)"

subsection \<open>Move dispatcher\<close>

text \<open>
  The in-events of a face's handler for the cubies \<open>rs\<close>: each is a call of \<^verbatim>\<open>collide\<close> with
  the face's \<^verbatim>\<open>num\<close>. One traversal of a face's traverser delivers what the oracle reports.
\<close>

definition deliver :: "face \<Rightarrow> cubie list \<Rightarrow> game \<Rightarrow> game" where
  "deliver f rs g = fold (\<lambda>c. collide (side_num f) \<lparr>into_side = f, from_cube = c\<rparr>) rs g"

definition traverse :: "env \<Rightarrow> face \<Rightarrow> game \<Rightarrow> game" where
  "traverse en f g = deliver f (trav en f g) (log (EvTraverse f) g)"

definition force_traverse :: "env \<Rightarrow> char \<Rightarrow> game \<Rightarrow> game" where
  "force_traverse en key g0 =
     (let g = (if isupper key then g0\<lparr>direction := -1\<rparr> else g0\<lparr>direction := 1\<rparr>)
      in if key \<in> set ''tT'' then traverse en TOP_SIDE g
         else if key \<in> set ''dD'' then traverse en BOTTOM_SIDE g
         else if key \<in> set ''lL'' then traverse en LEFT_SIDE g
         else if key \<in> set ''rR'' then traverse en RIGHT_SIDE g
         else if key \<in> set ''fF'' then traverse en FRONT_SIDE g
         else if key \<in> set ''bB'' then traverse en BACK_SIDE g
         else if key \<in> set ''hH'' then traverse en CENTER_HORIZONTAL_SIDE g
         else if key \<in> set ''vV'' then traverse en CENTER_VERTICAL_SIDE g
         else if key \<in> set ''cC'' then traverse en CENTER_DOUBLE_SIDE g
         else
           (let g1 = (if key = CHR '' '' then randomize en g
                      else if key \<in> set ''1234567'' then look_at_cube_side key g
                      else g)
            in g1\<lparr>keystroke_armed := True\<rparr>))"

text \<open>
  The loop \<^verbatim>\<open>for cube in self.cubes: cube.setFluidPos(cube.getX() + d, cube.getY() + d,
  cube.getZ() + d)\<close>.
\<close>

definition shift_cubes :: "real \<Rightarrow> game \<Rightarrow> game" where
  "shift_cubes d g = fold (\<lambda>cube. log (EvSetFluidPos cube d)) (cubes g) g"

definition force_collisions :: "env \<Rightarrow> char \<Rightarrow> game \<Rightarrow> game" where
  "force_collisions en key g =
     (let g1 = force_traverse en key g;
          g2 = shift_cubes 15 g1;
          g3 = force_traverse en key g2;
          g4 = shift_cubes (-15) g3
      in print_key_on_screen key g4)"

text \<open>A keystroke event: delivered to \<^verbatim>\<open>force_collisions\<close> once, if the handler is armed.\<close>

definition keystroke :: "env \<Rightarrow> char \<Rightarrow> game \<Rightarrow> game" where
  "keystroke en key g =
     (if keystroke_armed g then force_collisions en key (g\<lparr>keystroke_armed := False\<rparr>)
      else g)"

subsection \<open>Running started sequences\<close>

fun exec_step :: "env \<Rightarrow> step \<Rightarrow> game \<Rightarrow> game" where
  "exec_step en (HprInterval pivot duration hpr) g = g\<lparr>pivot_hpr := (pivot_hpr g)(pivot := hpr)\<rparr>"
| "exec_step en (RotateWithoutAnim name) g = rotate_without_anim name g"
| "exec_step en (ReparentCubes pivot cs) g = reparent_cubes pivot cs g"
| "exec_step en (ResetStep cs) g = reset cs g"
| "exec_step en (TurnOnOffAnimate state) g = turn_on_off_anmiate state g"
| "exec_step en (Wait t) g = g"
| "exec_step en (ForceCollisions key) g = force_collisions en key g"
| "exec_step en TurnOfRandomize g = turn_of_randomize g"

text \<open>
  The interval manager runs the next step of the \<open>i\<close>-th started sequence; a schedule is
  the list of the sequences it advances, in order.
\<close>

definition advance :: "env \<Rightarrow> nat \<Rightarrow> game \<Rightarrow> game" where
  "advance en i g =
     (if i < length (seqs g) then
        (case seqs g ! i of
           [] \<Rightarrow> g
         | st # rest \<Rightarrow> exec_step en st (g\<lparr>seqs := (seqs g)[i := rest]\<rparr>))
      else g)"

definition run :: "env \<Rightarrow> nat list \<Rightarrow> game \<Rightarrow> game" where
  "run en sched g = fold (advance en) sched g"

subsection \<open>Notions the properties are stated with\<close>

text \<open>The face a key selects in \<^verbatim>\<open>force_traverse\<close>, if any, in the order of its branches.\<close>

definition key_face :: "char \<Rightarrow> face option" where
  "key_face key =
     (if key \<in> set ''tT'' then Some TOP_SIDE
      else if key \<in> set ''dD'' then Some BOTTOM_SIDE
      else if key \<in> set ''lL'' then Some LEFT_SIDE
      else if key \<in> set ''rR'' then Some RIGHT_SIDE
      else if key \<in> set ''fF'' then Some FRONT_SIDE
      else if key \<in> set ''bB'' then Some BACK_SIDE
      else if key \<in> set ''hH'' then Some CENTER_HORIZONTAL_SIDE
      else if key \<in> set ''vV'' then Some CENTER_VERTICAL_SIDE
      else if key \<in> set ''cC'' then Some CENTER_DOUBLE_SIDE
      else None)"

text \<open>The direction \<^verbatim>\<open>force_traverse\<close> sets for a key.\<close>

definition key_direction :: "char \<Rightarrow> int" where
  "key_direction key = (if isupper key then -1 else 1)"

text \<open>
  The calls recorded while the reports \<open>rs\<close> of a face are delivered to a game whose
  collision set is \<open>A\<close>, and the number of reports among them that find the set, once the
  cubie is added, at the face's count or above.
\<close>

fun feed_events :: "face \<Rightarrow> cubie fset \<Rightarrow> cubie list \<Rightarrow> event list" where
  "feed_events f A [] = []"
| "feed_events f A (c # rs) =
     EvCollide f c # (if side_num f \<le> fcard (finsert c A) then [EvRotateSide f] else [])
       @ feed_events f (finsert c A) rs"

fun quorum_hits :: "nat \<Rightarrow> cubie fset \<Rightarrow> cubie list \<Rightarrow> nat" where
  "quorum_hits n A [] = 0"
| "quorum_hits n A (c # rs) =
     (if n \<le> fcard (finsert c A) then 1 else 0) + quorum_hits n (finsert c A) rs"

text \<open>The sequences started while the reports are delivered.\<close>

fun feed_seqs :: "bool \<Rightarrow> int \<Rightarrow> face \<Rightarrow> cubie fset \<Rightarrow> cubie list \<Rightarrow> step list list" where
  "feed_seqs anim d f A [] = []"
| "feed_seqs anim d f A (c # rs) =
     (if side_num f \<le> fcard (finsert c A) then [rotation_seq anim d f (finsert c A)] else [])
       @ feed_seqs anim d f (finsert c A) rs"

text \<open>The cubies reported in a list of recorded calls, and the calls recorded since a game.\<close>

fun reported :: "event list \<Rightarrow> cubie list" where
  "reported [] = []"
| "reported (EvCollide f c # evs) = c # reported evs"
| "reported (e # evs) = reported evs"

definition events_since :: "game \<Rightarrow> game \<Rightarrow> event list" where
  "events_since g g' = drop (length (trace g)) (trace g')"

text \<open>The keys a sequence passes to \<^verbatim>\<open>force_collisions\<close>, in order.\<close>

fun moves_of :: "step list \<Rightarrow> char list" where
  "moves_of [] = []"
| "moves_of (ForceCollisions key # sts) = key # moves_of sts"
| "moves_of (st # sts) = moves_of sts"

text \<open>
  What the oracle reports at the first and at the second traversal of an attempt on the
  face \<open>f\<close> with the key \<open>key\<close>.
\<close>

definition first_reports :: "env \<Rightarrow> char \<Rightarrow> face \<Rightarrow> game \<Rightarrow> cubie list" where
  "first_reports en key f g = trav en f (g\<lparr>direction := key_direction key\<rparr>)"

definition second_reports :: "env \<Rightarrow> char \<Rightarrow> face \<Rightarrow> game \<Rightarrow> cubie list" where
  "second_reports en key f g =
     trav en f ((shift_cubes 15 (force_traverse en key g))\<lparr>direction := key_direction key\<rparr>)"

subsection \<open>Concrete games and engines\<close>

text \<open>
  The twenty-six cubies, and whether cubie 0 has been moved by +15 more often than by -15.
\<close>

definition cubies26 :: "cubie list" where
  "cubies26 = [0, 1, 2, 3, 4, 5, 6, 7, 8, 9, 10, 11, 12, 13, 14, 15, 16, 17, 18, 19, 20, 21, 22,
     23, 24, 25]"

definition displaced :: "game \<Rightarrow> bool" where
  "displaced g =
     (count_list (trace g) (EvSetFluidPos 0 (-15)) < count_list (trace g) (EvSetFluidPos 0 15))"

text \<open>
  An engine that reports, while the cubies are in place, as many cubies as the face counts;
  one that reports ten; one that reports eight; none of them reports a displaced cubie.
\<close>

definition engine_exact :: env where
  "engine_exact =
     \<lparr>trav = (\<lambda>f g. if displaced g then [] else take (side_num f) [0, 1, 2, 3, 4, 5, 6, 7, 8]),
      entropy = (\<lambda>g i. i)\<rparr>"

definition engine_ten :: env where
  "engine_ten =
     \<lparr>trav = (\<lambda>f g. if displaced g then [] else [0, 1, 2, 3, 4, 5, 6, 7, 8, 9]),
      entropy = (\<lambda>g i. i)\<rparr>"

definition engine_eight :: env where
  "engine_eight =
     \<lparr>trav = (\<lambda>f g. if displaced g then [] else [0, 1, 2, 3, 4, 5, 6, 7]),
      entropy = (\<lambda>g i. i)\<rparr>"

text \<open>The game at the ninth report for the top face: nine cubies collected.\<close>

definition game_nine_collected :: game where
  "game_nine_collected =
     (init_game cubies26)\<lparr>collided_cubes := {|0, 1, 2, 3, 4, 5, 6, 7, 8|}\<rparr>"

text \<open>
  The game in which the shuffle has just made its first move: the space key was pressed
  on the initial game, and the interval manager has run the first three steps of the
  shuffle's sequence. Whether cubie 0 has been moved back as often as it was moved away.
\<close>

definition game_shuffle_turning :: game where
  "game_shuffle_turning =
     run engine_exact [0, 0, 0] (keystroke engine_exact CHR '' '' (init_game cubies26))"

definition balanced :: "game \<Rightarrow> bool" where
  "balanced g =
     (count_list (trace g) (EvSetFluidPos 0 (-15)) = count_list (trace g) (EvSetFluidPos 0 15))"

section \<open>Properties\<close>

subsection \<open>What each call changes\<close>

lemma fold_log:
  "fold (\<lambda>c. log (ev c)) xs g = g\<lparr>trace := trace g @ map ev xs\<rparr>"
  by (induction xs arbitrary: g) (simp_all add: log_def)

lemma shift_cubes_eq:
  "shift_cubes d g = g\<lparr>trace := trace g @ map (\<lambda>c. EvSetFluidPos c d) (cubes g)\<rparr>"
  unfolding shift_cubes_def by (rule fold_log)

lemma rotate_side_fields [simp]:
  "direction (rotate_side e g) = direction g"
  "animate (rotate_side e g) = animate g"
  "randomizing (rotate_side e g) = randomizing g"
  "collided_cubes (rotate_side e g) = collided_cubes g"
  "cubes (rotate_side e g) = cubes g"
  "tb_hpr (rotate_side e g) = tb_hpr g"
  "pressed_button (rotate_side e g) = pressed_button g"
  "info_on_screen (rotate_side e g) = info_on_screen g"
  "keystroke_armed (rotate_side e g) = keystroke_armed g"
  "trace (rotate_side e g) = trace g @ [EvRotateSide (into_side e)]"
  "seqs (rotate_side e g) =
     seqs g @ [rotation_seq (animate g) (direction g) (into_side e) (collided_cubes g)]"
  "parent (rotate_side e g) =
     (\<lambda>c. if c |\<in>| collided_cubes g then Pivot (into_side e) else parent g c)"
  "pivot_hpr (rotate_side e g) = (pivot_hpr g)(into_side e := (0, 0, 0))"
  by (simp_all add: rotate_side_def log_def Let_def fun_eq_iff)

lemma collide_fields [simp]:
  "direction (collide n e g) = direction g"
  "animate (collide n e g) = animate g"
  "randomizing (collide n e g) = randomizing g"
  "collided_cubes (collide n e g) = finsert (from_cube e) (collided_cubes g)"
  "cubes (collide n e g) = cubes g"
  "tb_hpr (collide n e g) = tb_hpr g"
  "pressed_button (collide n e g) = pressed_button g"
  "info_on_screen (collide n e g) = info_on_screen g"
  "keystroke_armed (collide n e g) = keystroke_armed g"
  by (simp_all add: collide_def log_def Let_def)

lemma collide_trace:
  "trace (collide n e g) = trace g @ EvCollide (into_side e) (from_cube e)
     # (if n \<le> fcard (finsert (from_cube e) (collided_cubes g)) then [EvRotateSide (into_side e)] else [])"
  by (simp add: collide_def log_def Let_def)

lemma collide_seqs:
  "seqs (collide n e g) = seqs g @
     (if n \<le> fcard (finsert (from_cube e) (collided_cubes g))
      then [rotation_seq (animate g) (direction g) (into_side e) (finsert (from_cube e) (collided_cubes g))]
      else [])"
  by (simp add: collide_def log_def Let_def)

lemma deliver_fields [simp]:
  "direction (deliver f rs g) = direction g"
  "animate (deliver f rs g) = animate g"
  "randomizing (deliver f rs g) = randomizing g"
  "cubes (deliver f rs g) = cubes g"
  "tb_hpr (deliver f rs g) = tb_hpr g"
  "pressed_button (deliver f rs g) = pressed_button g"
  "info_on_screen (deliver f rs g) = info_on_screen g"
  "keystroke_armed (deliver f rs g) = keystroke_armed g"
  unfolding deliver_def by (induction rs arbitrary: g; simp)+

lemma deliver_collided [simp]:
  "collided_cubes (deliver f rs g) = collided_cubes g |\<union>| fset_of_list rs"
  unfolding deliver_def by (induction rs arbitrary: g) auto

lemma deliver_trace:
  "trace (deliver f rs g) = trace g @ feed_events f (collided_cubes g) rs"
  unfolding deliver_def by (induction rs arbitrary: g) (simp_all add: collide_trace)

lemma deliver_seqs:
  "seqs (deliver f rs g) = seqs g @ feed_seqs (animate g) (direction g) f (collided_cubes g) rs"
  unfolding deliver_def by (induction rs arbitrary: g) (simp_all add: collide_seqs)

lemma traverse_fields [simp]:
  "direction (traverse en f g) = direction g"
  "animate (traverse en f g) = animate g"
  "randomizing (traverse en f g) = randomizing g"
  "cubes (traverse en f g) = cubes g"
  "tb_hpr (traverse en f g) = tb_hpr g"
  "pressed_button (traverse en f g) = pressed_button g"
  "info_on_screen (traverse en f g) = info_on_screen g"
  "keystroke_armed (traverse en f g) = keystroke_armed g"
  "collided_cubes (traverse en f g) = collided_cubes g |\<union>| fset_of_list (trav en f g)"
  by (simp_all add: traverse_def log_def)

lemma traverse_trace:
  "trace (traverse en f g) =
     trace g @ EvTraverse f # feed_events f (collided_cubes g) (trav en f g)"
  by (simp add: traverse_def deliver_trace log_def)

lemma traverse_seqs:
  "seqs (traverse en f g) =
     seqs g @ feed_seqs (animate g) (direction g) f (collided_cubes g) (trav en f g)"
  by (simp add: traverse_def deliver_seqs log_def)

lemma upper_keys:
  "upper CHR ''t'' = CHR ''T''" "upper CHR ''d'' = CHR ''D''" "upper CHR ''l'' = CHR ''L''"
  "upper CHR ''r'' = CHR ''R''" "upper CHR ''f'' = CHR ''F''" "upper CHR ''b'' = CHR ''B''"
  "upper CHR ''v'' = CHR ''V''" "upper CHR ''c'' = CHR ''C''" "upper CHR ''h'' = CHR ''H''"
  by code_simp+

lemma key_face_side_key [simp]:
  "key_face (side_key f) = Some f" "key_face (upper (side_key f)) = Some f"
  by (cases f; simp add: key_face_def upper_keys)+

lemma isupper_side_key [simp]:
  "\<not> isupper (side_key f)" "isupper (upper (side_key f))"
  by (cases f; simp add: isupper_def upper_keys)+

lemma key_face_cases:
  "key_face k = Some f \<Longrightarrow> k = side_key f \<or> k = upper (side_key f)"
  unfolding key_face_def by (simp split: if_splits; auto simp: upper_keys)

lemma force_traverse_side_key:
  "force_traverse en (side_key f) g = traverse en f (g\<lparr>direction := 1\<rparr>)"
  by (cases f; simp add: force_traverse_def isupper_def)

lemma force_traverse_upper_side_key:
  "force_traverse en (upper (side_key f)) g = traverse en f (g\<lparr>direction := -1\<rparr>)"
  by (cases f; simp add: force_traverse_def isupper_def upper_keys)

lemma force_traverse_face:
  assumes "key_face k = Some f"
  shows "force_traverse en k g = traverse en f (g\<lparr>direction := key_direction k\<rparr>)"
proof -
  from key_face_cases [OF assms] show ?thesis
  proof
    assume "k = side_key f"
    then show ?thesis by (simp add: force_traverse_side_key key_direction_def)
  next
    assume "k = upper (side_key f)"
    then show ?thesis by (simp add: force_traverse_upper_side_key key_direction_def)
  qed
qed

lemma events_since_append [simp]:
  "trace g' = trace g @ evs \<Longrightarrow> events_since g g' = evs"
  by (simp add: events_since_def)

lemma events_since_collide:
  "events_since g (collide n e g) = EvCollide (into_side e) (from_cube e)
     # (if n \<le> fcard (finsert (from_cube e) (collided_cubes g)) then [EvRotateSide (into_side e)] else [])"
  by (simp add: collide_trace)

subsection \<open>Quorum\<close>

text \<open>
  C6. The registry's count is 9 for each of the six outer faces and 8 for each of the
  three centre slices. A collision report calls \<^verbatim>\<open>rotate_side\<close> exactly when the collision
  set, the reported cubie included, has at least the face's count: below the count no
  sequence is started.
\<close>

theorem quorum_count_and_trigger:
  "side_num TOP_SIDE = 9 \<and> side_num BOTTOM_SIDE = 9 \<and> side_num LEFT_SIDE = 9 \<and>
   side_num RIGHT_SIDE = 9 \<and> side_num FRONT_SIDE = 9 \<and> side_num BACK_SIDE = 9 \<and>
   side_num CENTER_VERTICAL_SIDE = 8 \<and> side_num CENTER_HORIZONTAL_SIDE = 8 \<and>
   side_num CENTER_DOUBLE_SIDE = 8 \<and>
   (\<forall>f c g.
      (EvRotateSide f \<in> set (events_since g (collide (side_num f) \<lparr>into_side = f, from_cube = c\<rparr> g)))
      = (side_num f \<le> fcard (finsert c (collided_cubes g)))) \<and>
   (\<forall>f c g.
      (seqs (collide (side_num f) \<lparr>into_side = f, from_cube = c\<rparr> g) = seqs g)
      = (fcard (finsert c (collided_cubes g)) < side_num f))"
  by (simp add: events_since_collide collide_seqs not_le)

lemma reset_fields [simp]:
  "collided_cubes (reset cs g) = {||}"
  "trace (reset cs g) = trace g @ [EvReset]"
  "keystroke_armed (reset cs g) = (\<not> randomizing g \<or> keystroke_armed g)"
  "direction (reset cs g) = direction g"
  "animate (reset cs g) = animate g"
  "randomizing (reset cs g) = randomizing g"
  "cubes (reset cs g) = cubes g"
  "parent (reset cs g) = parent g"
  "pivot_hpr (reset cs g) = pivot_hpr g"
  "tb_hpr (reset cs g) = tb_hpr g"
  "seqs (reset cs g) = seqs g"
  by (simp_all add: reset_def log_def Let_def)

text \<open>
  C9. There is one collision set for all faces. A report for any face adds its cubie to
  that set; the comparison for a face counts the cubies reported for other faces before;
  the reset step of a rotation sequence empties the whole set.
\<close>

theorem one_shared_collision_set:
  "(\<forall>n e g. collided_cubes (collide n e g) = finsert (from_cube e) (collided_cubes g)) \<and>
   (\<forall>f f' c c' g.
      (EvRotateSide f' \<in> set (events_since (collide (side_num f) \<lparr>into_side = f, from_cube = c\<rparr> g)
         (collide (side_num f') \<lparr>into_side = f', from_cube = c'\<rparr>
            (collide (side_num f) \<lparr>into_side = f, from_cube = c\<rparr> g))))
      = (side_num f' \<le> fcard (finsert c' (finsert c (collided_cubes g))))) \<and>
   (\<forall>en cs g. collided_cubes (exec_step en (ResetStep cs) g) = {||})"
  by (simp add: events_since_collide)

subsection \<open>Running a rotation sequence\<close>

lemma advance_started:
  "seqs g' = qs @ (st # rest) # qs' \<Longrightarrow>
   advance en (length qs) g' = exec_step en st (g'\<lparr>seqs := qs @ rest # qs'\<rparr>)"
  by (simp add: advance_def)

text \<open>The turn of the pivot, as the first step of a rotation sequence performs it.\<close>

lemma rotation_seq_Cons:
  "rotation_seq anim d f cs =
     (if anim then HprInterval f 0.28 (scale d (side_rotation f)) else RotateWithoutAnim f)
       # [ReparentCubes f cs, ResetStep cs]"
  by (simp add: rotation_seq_def)

lemma rotate_without_anim_fields [simp]:
  "parent (rotate_without_anim f g) = parent g"
  "seqs (rotate_without_anim f g) = seqs g"
  "keystroke_armed (rotate_without_anim f g) = keystroke_armed g"
  "randomizing (rotate_without_anim f g) = randomizing g"
  "collided_cubes (rotate_without_anim f g) = collided_cubes g"
  "trace (rotate_without_anim f g) = trace g"
  "direction (rotate_without_anim f g) = direction g"
  "pivot_hpr (rotate_without_anim f g) = (pivot_hpr g)(f := scale (direction g) (side_rotation f))"
  by (simp_all add: rotate_without_anim_def)

lemma exec_turn_fields [simp]:
  "parent (exec_step en (if a then HprInterval f t v else RotateWithoutAnim f) g) = parent g"
  "seqs (exec_step en (if a then HprInterval f t v else RotateWithoutAnim f) g) = seqs g"
  "keystroke_armed (exec_step en (if a then HprInterval f t v else RotateWithoutAnim f) g) = keystroke_armed g"
  "randomizing (exec_step en (if a then HprInterval f t v else RotateWithoutAnim f) g) = randomizing g"
  "collided_cubes (exec_step en (if a then HprInterval f t v else RotateWithoutAnim f) g) = collided_cubes g"
  "trace (exec_step en (if a then HprInterval f t v else RotateWithoutAnim f) g) = trace g"
  "direction (exec_step en (if a then HprInterval f t v else RotateWithoutAnim f) g) = direction g"
  by (simp_all add: rotate_without_anim_def)

lemma reparent_fields [simp]:
  "parent (reparent_cubes f cs g) = (\<lambda>c. if c |\<in>| cs then Cube_model else parent g c)"
  "seqs (reparent_cubes f cs g) = seqs g"
  "keystroke_armed (reparent_cubes f cs g) = keystroke_armed g"
  "randomizing (reparent_cubes f cs g) = randomizing g"
  "collided_cubes (reparent_cubes f cs g) = collided_cubes g"
  "trace (reparent_cubes f cs g) = trace g"
  "direction (reparent_cubes f cs g) = direction g"
  "pivot_hpr (reparent_cubes f cs g) = pivot_hpr g"
  by (simp_all add: reparent_cubes_def)

text \<open>The three steps of a rotation sequence that stands at place \<open>length qs\<close>.\<close>

lemma run_rotation_1:
  assumes "seqs g' = qs @ rotation_seq a d f cs # qs'"
  shows "run en [length qs] g' =
     exec_step en (if a then HprInterval f 0.28 (scale d (side_rotation f)) else RotateWithoutAnim f)
       (g'\<lparr>seqs := qs @ [ReparentCubes f cs, ResetStep cs] # qs'\<rparr>)"
  using assms by (simp add: run_def rotation_seq_Cons advance_started)

lemma run_rotation_2:
  assumes "seqs g' = qs @ rotation_seq a d f cs # qs'"
  shows "run en [length qs, length qs] g' =
     reparent_cubes f cs
       ((exec_step en (if a then HprInterval f 0.28 (scale d (side_rotation f)) else RotateWithoutAnim f)
          (g'\<lparr>seqs := qs @ [ReparentCubes f cs, ResetStep cs] # qs'\<rparr>))
        \<lparr>seqs := qs @ [ResetStep cs] # qs'\<rparr>)"
proof -
  let ?g1 = "run en [length qs] g'"
  have s1: "seqs ?g1 = qs @ (ReparentCubes f cs # [ResetStep cs]) # qs'"
    by (simp add: run_rotation_1 [OF assms])
  have "run en [length qs, length qs] g' = advance en (length qs) ?g1"
    by (simp add: run_def)
  also have "\<dots> = exec_step en (ReparentCubes f cs) (?g1\<lparr>seqs := qs @ [ResetStep cs] # qs'\<rparr>)"
    by (rule advance_started [OF s1])
  finally show ?thesis by (simp add: run_rotation_1 [OF assms])
qed

lemma run_rotation_3:
  assumes "seqs g' = qs @ rotation_seq a d f cs # qs'"
  shows "run en [length qs, length qs, length qs] g' =
     reset cs ((run en [length qs, length qs] g')\<lparr>seqs := qs @ [] # qs'\<rparr>)"
proof -
  let ?g2 = "run en [length qs, length qs] g'"
  have s2: "seqs ?g2 = qs @ (ResetStep cs # []) # qs'"
    by (simp add: run_rotation_2 [OF assms])
  have "run en [length qs, length qs, length qs] g' = advance en (length qs) ?g2"
    by (simp add: run_def)
  also have "\<dots> = exec_step en (ResetStep cs) (?g2\<lparr>seqs := qs @ [] # qs'\<rparr>)"
    by (rule advance_started [OF s2])
  finally show ?thesis by simp
qed

lemma rotate_side_seqs':
  "seqs (rotate_side e g) =
     seqs g @ rotation_seq (animate g) (direction g) (into_side e) (collided_cubes g) # []"
  by simp

text \<open>
  C5. \<^verbatim>\<open>rotate_side\<close> hangs the cubies of the collision set under the face's pivot. Once
  the re-parent step of its sequence has run, and still after the reset step, each of
  them hangs under the cube model again and no other cubie has changed its parent: if
  every cubie hung under the cube model before the rotation, every cubie does after it.
\<close>

theorem reparent_back_to_cube_model:
  "(\<forall>c. c |\<in>| collided_cubes g \<longrightarrow> parent (rotate_side e g) c = Pivot (into_side e)) \<and>
   parent (run en [length (seqs g), length (seqs g)] (rotate_side e g)) =
     (\<lambda>c. if c |\<in>| collided_cubes g then Cube_model else parent g c) \<and>
   parent (run en [length (seqs g), length (seqs g), length (seqs g)] (rotate_side e g)) =
     (\<lambda>c. if c |\<in>| collided_cubes g then Cube_model else parent g c) \<and>
   ((\<forall>c. parent g c = Cube_model) \<longrightarrow>
    (\<forall>c. parent (run en [length (seqs g), length (seqs g), length (seqs g)] (rotate_side e g)) c
       = Cube_model))"
  by (simp add: run_rotation_3 [OF rotate_side_seqs'] run_rotation_2 [OF rotate_side_seqs'] fun_eq_iff)


theorem reparent_back_to_cube_model_witness:
  "(0 |\<in>| collided_cubes game_nine_collected \<and>
    parent (rotate_side \<lparr>into_side = TOP_SIDE, from_cube = 8\<rparr> game_nine_collected) 0
      = Pivot TOP_SIDE) \<and>
   (\<forall>c. parent game_nine_collected c = Cube_model) \<and>
   (\<forall>c. parent (run engine_exact [0, 0, 0]
          (rotate_side \<lparr>into_side = TOP_SIDE, from_cube = 8\<rparr> game_nine_collected)) c
      = Cube_model)"
  using reparent_back_to_cube_model
    [of game_nine_collected "\<lparr>into_side = TOP_SIDE, from_cube = 8\<rparr>" engine_exact]
  by (simp add: game_nine_collected_def init_game_def)

subsection \<open>An attempt on a face key\<close>

lemma shift_cubes_fields [simp]:
  "direction (shift_cubes d g) = direction g"
  "animate (shift_cubes d g) = animate g"
  "randomizing (shift_cubes d g) = randomizing g"
  "collided_cubes (shift_cubes d g) = collided_cubes g"
  "cubes (shift_cubes d g) = cubes g"
  "parent (shift_cubes d g) = parent g"
  "pivot_hpr (shift_cubes d g) = pivot_hpr g"
  "tb_hpr (shift_cubes d g) = tb_hpr g"
  "pressed_button (shift_cubes d g) = pressed_button g"
  "info_on_screen (shift_cubes d g) = info_on_screen g"
  "keystroke_armed (shift_cubes d g) = keystroke_armed g"
  "seqs (shift_cubes d g) = seqs g"
  "trace (shift_cubes d g) = trace g @ map (\<lambda>c. EvSetFluidPos c d) (cubes g)"
  by (simp_all add: shift_cubes_eq)

lemma print_key_fields [simp]:
  "direction (print_key_on_screen k g) = direction g"
  "animate (print_key_on_screen k g) = animate g"
  "randomizing (print_key_on_screen k g) = randomizing g"
  "collided_cubes (print_key_on_screen k g) = collided_cubes g"
  "cubes (print_key_on_screen k g) = cubes g"
  "parent (print_key_on_screen k g) = parent g"
  "pivot_hpr (print_key_on_screen k g) = pivot_hpr g"
  "tb_hpr (print_key_on_screen k g) = tb_hpr g"
  "info_on_screen (print_key_on_screen k g) = info_on_screen g"
  "keystroke_armed (print_key_on_screen k g) = keystroke_armed g"
  "seqs (print_key_on_screen k g) = seqs g"
  "trace (print_key_on_screen k g) = trace g"
  by (simp_all add: print_key_on_screen_def)

text \<open>An attempt on a face key, unfolded into its two traversals.\<close>

lemma force_collisions_face:
  assumes "key_face k = Some f"
  shows "force_collisions en k g =
     print_key_on_screen k (shift_cubes (-15)
       (deliver f (second_reports en k f g)
          (log (EvTraverse f)
             ((shift_cubes 15
                (deliver f (first_reports en k f g)
                   (log (EvTraverse f) (g\<lparr>direction := key_direction k\<rparr>))))
              \<lparr>direction := key_direction k\<rparr>))))"
  by (simp add: force_collisions_def Let_def force_traverse_face [OF assms] traverse_def
      first_reports_def second_reports_def)

lemma log_fields [simp]:
  "direction (log e g) = direction g"
  "animate (log e g) = animate g"
  "randomizing (log e g) = randomizing g"
  "collided_cubes (log e g) = collided_cubes g"
  "cubes (log e g) = cubes g"
  "parent (log e g) = parent g"
  "pivot_hpr (log e g) = pivot_hpr g"
  "tb_hpr (log e g) = tb_hpr g"
  "pressed_button (log e g) = pressed_button g"
  "info_on_screen (log e g) = info_on_screen g"
  "keystroke_armed (log e g) = keystroke_armed g"
  "seqs (log e g) = seqs g"
  "trace (log e g) = trace g @ [e]"
  by (simp_all add: log_def)

lemma force_collisions_face_fields:
  assumes "key_face k = Some f"
  shows "direction (force_collisions en k g) = key_direction k"
    and "animate (force_collisions en k g) = animate g"
    and "randomizing (force_collisions en k g) = randomizing g"
    and "keystroke_armed (force_collisions en k g) = keystroke_armed g"
    and "cubes (force_collisions en k g) = cubes g"
    and "tb_hpr (force_collisions en k g) = tb_hpr g"
    and "collided_cubes (force_collisions en k g) =
           collided_cubes g |\<union>| fset_of_list (first_reports en k f g)
             |\<union>| fset_of_list (second_reports en k f g)"
  by (simp_all add: force_collisions_face [OF assms])

lemma force_collisions_face_trace:
  assumes "key_face k = Some f"
  shows "trace (force_collisions en k g) =
     trace g @ EvTraverse f # feed_events f (collided_cubes g) (first_reports en k f g)
       @ map (\<lambda>c. EvSetFluidPos c 15) (cubes g)
       @ EvTraverse f
         # feed_events f (collided_cubes g |\<union>| fset_of_list (first_reports en k f g))
             (second_reports en k f g)
       @ map (\<lambda>c. EvSetFluidPos c (-15)) (cubes g)"
  by (simp add: force_collisions_face [OF assms] deliver_trace)

lemma force_collisions_face_seqs:
  assumes "key_face k = Some f"
  shows "seqs (force_collisions en k g) =
     seqs g @ feed_seqs (animate g) (key_direction k) f (collided_cubes g) (first_reports en k f g)
       @ feed_seqs (animate g) (key_direction k) f
           (collided_cubes g |\<union>| fset_of_list (first_reports en k f g)) (second_reports en k f g)"
  by (simp add: force_collisions_face [OF assms] deliver_seqs)

lemma count_feed_events [simp]:
  "count_list (feed_events f A rs) (EvRotateSide f) = quorum_hits (side_num f) A rs"
  "count_list (feed_events f A rs) (EvSetFluidPos c d) = 0"
  "count_list (feed_events f A rs) (EvTraverse f') = 0"
  "count_list (feed_events f A rs) EvReset = 0"
  by (induction rs arbitrary: A; simp)+

lemma count_map_set_fluid_pos [simp]:
  "count_list (map (\<lambda>c. EvSetFluidPos c d) cs) (EvRotateSide f) = 0"
  "count_list (map (\<lambda>c. EvSetFluidPos c d) cs) EvReset = 0"
  by (induction cs; simp)+

lemma reported_append [simp]: "reported (xs @ ys) = reported xs @ reported ys"
  by (induction xs rule: reported.induct) simp_all

lemma reported_feed_events [simp]: "reported (feed_events f A rs) = rs"
  by (induction rs arbitrary: A) simp_all

lemma reported_map_set_fluid_pos [simp]: "reported (map (\<lambda>c. EvSetFluidPos c d) cs) = []"
  by (induction cs) simp_all

lemma length_feed_seqs [simp]:
  "length (feed_seqs a d f A rs) = quorum_hits (side_num f) A rs"
  by (induction rs arbitrary: A) simp_all

lemma quorum_hits_append:
  "quorum_hits n A (xs @ ys) = quorum_hits n A xs + quorum_hits n (A |\<union>| fset_of_list xs) ys"
  by (induction xs arbitrary: A) simp_all

lemma quorum_hits_zero:
  "fcard (A |\<union>| fset_of_list rs) < n \<Longrightarrow> quorum_hits n A rs = 0"
proof (induction rs arbitrary: A)
  case Nil
  show ?case by simp
next
  case (Cons c rs)
  have eq: "A |\<union>| fset_of_list (c # rs) = finsert c A |\<union>| fset_of_list rs" by auto
  have "fcard (finsert c A) \<le> fcard (finsert c A |\<union>| fset_of_list rs)"
    by (rule fcard_mono) auto
  with Cons.prems eq have small: "fcard (finsert c A) < n" by simp
  from Cons.prems eq have "fcard (finsert c A |\<union>| fset_of_list rs) < n" by simp
  from Cons.IH [OF this] small show ?case by simp
qed

lemma quorum_hits_last:
  assumes "fcard (A |\<union>| fset_of_list rs) < n"
    and "n \<le> fcard (finsert c (A |\<union>| fset_of_list rs))"
  shows "quorum_hits n A (rs @ [c]) = 1"
  using assms by (simp add: quorum_hits_append quorum_hits_zero)

lemma feed_seqs_append:
  "feed_seqs a d f A (xs @ ys) = feed_seqs a d f A xs @ feed_seqs a d f (A |\<union>| fset_of_list xs) ys"
  by (induction xs arbitrary: A) simp_all

lemma feed_seqs_none:
  "fcard (A |\<union>| fset_of_list rs) < side_num f \<Longrightarrow> feed_seqs a d f A rs = []"
proof -
  assume "fcard (A |\<union>| fset_of_list rs) < side_num f"
  then have "length (feed_seqs a d f A rs) = 0"
    by (simp add: quorum_hits_zero)
  then show ?thesis by (simp only: length_0_conv)
qed

lemma feed_seqs_last:
  assumes "fcard (A |\<union>| fset_of_list rs) < side_num f"
    and "side_num f \<le> fcard (finsert c (A |\<union>| fset_of_list rs))"
  shows "feed_seqs a d f A (rs @ [c]) = [rotation_seq a d f (finsert c (A |\<union>| fset_of_list rs))]"
  using assms by (simp add: feed_seqs_append feed_seqs_none)

lemma events_since_force_collisions:
  assumes "key_face k = Some f"
  shows "events_since g (force_collisions en k g) =
     EvTraverse f # feed_events f (collided_cubes g) (first_reports en k f g)
       @ map (\<lambda>c. EvSetFluidPos c 15) (cubes g)
       @ EvTraverse f
         # feed_events f (collided_cubes g |\<union>| fset_of_list (first_reports en k f g))
             (second_reports en k f g)
       @ map (\<lambda>c. EvSetFluidPos c (-15)) (cubes g)"
  by (simp add: force_collisions_face_trace [OF assms] events_since_def)

lemma events_since_run3:
  assumes "seqs g' = qs @ rotation_seq a d f cs # qs'"
  shows "events_since g' (run en [length qs, length qs, length qs] g') = [EvReset]"
    and "collided_cubes (run en [length qs, length qs, length qs] g') = {||}"
  by (simp_all add: run_rotation_3 [OF assms] run_rotation_2 [OF assms] events_since_def)

text \<open>
  C1, as the code has it. On an attempt with a face key, \<^verbatim>\<open>rotate_side\<close> is called once
  for every collision report, of the first or of the second traversal, that finds the
  collision set, the cubie added, at the face's count or above; each call starts one
  sequence. When the last report of the attempt is the one that reaches the count, the
  attempt calls \<^verbatim>\<open>rotate_side\<close> once, and its sequence, run to the end, calls
  \<^verbatim>\<open>reset\<close> once and leaves the collision set empty.
\<close>

theorem rotations_per_attempt:
  assumes "key_face k = Some f"
  shows "reported (events_since g (force_collisions en k g))
           = first_reports en k f g @ second_reports en k f g \<and>
         count_list (events_since g (force_collisions en k g)) (EvRotateSide f)
           = quorum_hits (side_num f) (collided_cubes g)
               (reported (events_since g (force_collisions en k g))) \<and>
         length (seqs (force_collisions en k g))
           = length (seqs g) + quorum_hits (side_num f) (collided_cubes g)
               (reported (events_since g (force_collisions en k g))) \<and>
         (\<forall>rs c. reported (events_since g (force_collisions en k g)) = rs @ [c] \<and>
                 fcard (collided_cubes g |\<union>| fset_of_list rs) < side_num f \<and>
                 side_num f \<le> fcard (finsert c (collided_cubes g |\<union>| fset_of_list rs)) \<longrightarrow>
            count_list (events_since g (force_collisions en k g)) (EvRotateSide f) = 1 \<and>
            length (seqs (force_collisions en k g)) = length (seqs g) + 1 \<and>
            events_since (force_collisions en k g)
              (run en [length (seqs g), length (seqs g), length (seqs g)] (force_collisions en k g))
              = [EvReset] \<and>
            collided_cubes
              (run en [length (seqs g), length (seqs g), length (seqs g)] (force_collisions en k g))
              = {||})"
proof -
  let ?g' = "force_collisions en k g"
  let ?r1 = "first_reports en k f g" and ?r2 = "second_reports en k f g"
  let ?A = "collided_cubes g"
  have rep: "reported (events_since g ?g') = ?r1 @ ?r2"
    by (simp add: events_since_force_collisions [OF assms])
  have cnt: "count_list (events_since g ?g') (EvRotateSide f) = quorum_hits (side_num f) ?A (?r1 @ ?r2)"
    by (simp add: events_since_force_collisions [OF assms] quorum_hits_append)
  have sq: "seqs ?g' = seqs g @ feed_seqs (animate g) (key_direction k) f ?A (?r1 @ ?r2)"
    by (simp add: force_collisions_face_seqs [OF assms] feed_seqs_append)
  have len: "length (seqs ?g') = length (seqs g) + quorum_hits (side_num f) ?A (?r1 @ ?r2)"
    by (simp add: sq)
  have one: "count_list (events_since g ?g') (EvRotateSide f) = 1 \<and>
      length (seqs ?g') = length (seqs g) + 1 \<and>
      events_since ?g' (run en [length (seqs g), length (seqs g), length (seqs g)] ?g') = [EvReset] \<and>
      collided_cubes (run en [length (seqs g), length (seqs g), length (seqs g)] ?g') = {||}"
    if h: "reported (events_since g ?g') = rs @ [c]"
      "fcard (?A |\<union>| fset_of_list rs) < side_num f"
      "side_num f \<le> fcard (finsert c (?A |\<union>| fset_of_list rs))" for rs c
  proof -
    from h(1) rep have r: "?r1 @ ?r2 = rs @ [c]" by simp
    have q1: "quorum_hits (side_num f) ?A (?r1 @ ?r2) = 1"
      unfolding r by (rule quorum_hits_last [OF h(2) h(3)])
    have s1: "seqs ?g' = seqs g @ rotation_seq (animate g) (key_direction k) f
        (finsert c (?A |\<union>| fset_of_list rs)) # []"
      unfolding sq r by (simp add: feed_seqs_last [OF h(2) h(3)])
    show ?thesis
      using cnt len q1 events_since_run3 [OF s1, of en] by simp
  qed
  show ?thesis
  proof (intro conjI allI impI)
    show "reported (events_since g ?g') = ?r1 @ ?r2" by (rule rep)
    show "count_list (events_since g ?g') (EvRotateSide f)
        = quorum_hits (side_num f) ?A (reported (events_since g ?g'))"
      unfolding rep by (rule cnt)
    show "length (seqs ?g')
        = length (seqs g) + quorum_hits (side_num f) ?A (reported (events_since g ?g'))"
      unfolding rep by (rule len)
  next
    fix rs c
    assume h: "reported (events_since g ?g') = rs @ [c] \<and>
        fcard (?A |\<union>| fset_of_list rs) < side_num f \<and>
        side_num f \<le> fcard (finsert c (?A |\<union>| fset_of_list rs))"
    from h have h1: "reported (events_since g ?g') = rs @ [c]" by (rule conjunct1)
    from h have h2: "fcard (?A |\<union>| fset_of_list rs) < side_num f" by simp
    from h have h3: "side_num f \<le> fcard (finsert c (?A |\<union>| fset_of_list rs))" by simp
    note o = one [OF h1 h2 h3]
    from o show "count_list (events_since g ?g') (EvRotateSide f) = 1" by (rule conjunct1)
    from o show "length (seqs ?g') = length (seqs g) + 1" by simp
    from o show "events_since ?g' (run en [length (seqs g), length (seqs g), length (seqs g)] ?g')
        = [EvReset]" by simp
    from o show "collided_cubes (run en [length (seqs g), length (seqs g), length (seqs g)] ?g')
        = {||}" by simp
  qed
qed

lemma count_map_set_fluid_pos_same:
  "count_list (map (\<lambda>c. EvSetFluidPos c d) cs) (EvSetFluidPos c' d')
     = (if d = d' then count_list cs c' else 0)"
  by (induction cs) auto

lemma not_displaced_fresh: "trace g = [] \<Longrightarrow> \<not> displaced (g\<lparr>direction := d\<rparr>)"
  by (simp add: displaced_def)

lemma displaced_after_shift:
  assumes "key_face k = Some f" and "trace g = []" and "cubes g = cubies26"
  shows "displaced ((shift_cubes 15 (force_traverse en k g))\<lparr>direction := d\<rparr>)"
  using assms(2,3)
  by (simp add: displaced_def force_traverse_face [OF assms(1)] traverse_trace
      count_map_set_fluid_pos_same cubies26_def)

lemma engine_exact_reports:
  assumes "key_face k = Some f" and "trace g = []" and "cubes g = cubies26"
  shows "first_reports engine_exact k f g = take (side_num f) [0, 1, 2, 3, 4, 5, 6, 7, 8]"
    and "second_reports engine_exact k f g = []"
  using not_displaced_fresh [OF assms(2)] displaced_after_shift [OF assms]
  by (simp_all add: first_reports_def second_reports_def engine_exact_def)

lemma engine_ten_reports:
  assumes "key_face k = Some f" and "trace g = []" and "cubes g = cubies26"
  shows "first_reports engine_ten k f g = [0, 1, 2, 3, 4, 5, 6, 7, 8, 9]"
    and "second_reports engine_ten k f g = []"
  using not_displaced_fresh [OF assms(2)] displaced_after_shift [OF assms]
  by (simp_all add: first_reports_def second_reports_def engine_ten_def)

lemma engine_eight_reports:
  assumes "key_face k = Some f" and "trace g = []" and "cubes g = cubies26"
  shows "first_reports engine_eight k f g = [0, 1, 2, 3, 4, 5, 6, 7]"
    and "second_reports engine_eight k f g = []"
  using not_displaced_fresh [OF assms(2)] displaced_after_shift [OF assms]
  by (simp_all add: first_reports_def second_reports_def engine_eight_def)

lemma key_face_t: "key_face CHR ''t'' = Some TOP_SIDE"
  by (simp add: key_face_def)

lemma init_game_fields [simp]:
  "trace (init_game cs) = []" "cubes (init_game cs) = cs" "seqs (init_game cs) = []"
  "collided_cubes (init_game cs) = {||}" "keystroke_armed (init_game cs)"
  "animate (init_game cs)" "\<not> randomizing (init_game cs)" "direction (init_game cs) = -1"
  "parent (init_game cs) = (\<lambda>c. Cube_model)" "tb_hpr (init_game cs) = (0, 0, 0)"
  by (simp_all add: init_game_def)

theorem rotations_per_attempt_witness:
  "key_face CHR ''t'' = Some TOP_SIDE \<and>
   reported (events_since (init_game cubies26)
      (force_collisions engine_exact CHR ''t'' (init_game cubies26)))
     = [0, 1, 2, 3, 4, 5, 6, 7] @ [8] \<and>
   fcard (collided_cubes (init_game cubies26) |\<union>| fset_of_list [0, 1, 2, 3, 4, 5, 6, 7])
     < side_num TOP_SIDE \<and>
   side_num TOP_SIDE
     \<le> fcard (finsert 8
         (collided_cubes (init_game cubies26) |\<union>| fset_of_list [0, 1, 2, 3, 4, 5, 6, 7])) \<and>
   count_list (events_since (init_game cubies26)
      (force_collisions engine_exact CHR ''t'' (init_game cubies26))) (EvRotateSide TOP_SIDE) = 1 \<and>
   events_since (force_collisions engine_exact CHR ''t'' (init_game cubies26))
     (run engine_exact [0, 0, 0] (force_collisions engine_exact CHR ''t'' (init_game cubies26)))
     = [EvReset]"
proof -
  let ?g = "init_game cubies26"
  note t = rotations_per_attempt [OF key_face_t, of ?g engine_exact]
  have rep: "reported (events_since ?g (force_collisions engine_exact CHR ''t'' ?g))
      = [0, 1, 2, 3, 4, 5, 6, 7] @ [8]"
    using t by (simp add: engine_exact_reports [OF key_face_t])
  have lo: "fcard (collided_cubes ?g |\<union>| fset_of_list [0, 1, 2, 3, 4, 5, 6, 7]) < side_num TOP_SIDE"
    by (simp add: fcard_finsert_if)
  have hi: "side_num TOP_SIDE
      \<le> fcard (finsert 8 (collided_cubes ?g |\<union>| fset_of_list [0, 1, 2, 3, 4, 5, 6, 7]))"
    by (simp add: fcard_finsert_if)
  from t have "\<forall>rs c. reported (events_since ?g (force_collisions engine_exact CHR ''t'' ?g)) = rs @ [c] \<and>
                 fcard (collided_cubes ?g |\<union>| fset_of_list rs) < side_num TOP_SIDE \<and>
                 side_num TOP_SIDE \<le> fcard (finsert c (collided_cubes ?g |\<union>| fset_of_list rs)) \<longrightarrow>
            count_list (events_since ?g (force_collisions engine_exact CHR ''t'' ?g)) (EvRotateSide TOP_SIDE) = 1 \<and>
            length (seqs (force_collisions engine_exact CHR ''t'' ?g)) = length (seqs ?g) + 1 \<and>
            events_since (force_collisions engine_exact CHR ''t'' ?g)
              (run engine_exact [length (seqs ?g), length (seqs ?g), length (seqs ?g)] (force_collisions engine_exact CHR ''t'' ?g))
              = [EvReset] \<and>
            collided_cubes
              (run engine_exact [length (seqs ?g), length (seqs ?g), length (seqs ?g)] (force_collisions engine_exact CHR ''t'' ?g))
              = {||}"
    by blast
  from this [rule_format, of "[0, 1, 2, 3, 4, 5, 6, 7]" 8] rep lo hi
  show ?thesis using key_face_t by simp
qed

lemma keystroke_armed_eq:
  "keystroke_armed g \<Longrightarrow> keystroke en k g = force_collisions en k (g\<lparr>keystroke_armed := False\<rparr>)"
  by (simp add: keystroke_def)

text \<open>
  Ten reports for the top face, whose count is nine: the ninth and the tenth report both
  call \<^verbatim>\<open>rotate_side\<close>, before any reset has run.
\<close>

theorem second_rotation_counterexample:
  "count_list (trace (keystroke engine_ten CHR ''t'' (init_game cubies26))) (EvRotateSide TOP_SIDE) = 2 \<and>
   length (seqs (keystroke engine_ten CHR ''t'' (init_game cubies26))) = 2"
  by (simp add: keystroke_armed_eq force_collisions_face_trace [OF key_face_t]
      force_collisions_face_seqs [OF key_face_t] engine_ten_reports [OF key_face_t]
      fcard_finsert_if fcard_fempty)

subsection \<open>The order of traversals and shifts\<close>




subsection \<open>Direction of a turn\<close>

lemma feed_seqs_shape:
  "q \<in> set (feed_seqs a d f A rs) \<Longrightarrow> \<exists>cs. q = rotation_seq a d f cs"
  by (induction rs arbitrary: A) (auto split: if_splits)

lemma started_seq_shape:
  assumes "key_face k = Some f"
    and "length (seqs g) \<le> i" and "i < length (seqs (force_collisions en k g))"
  shows "\<exists>cs. seqs (force_collisions en k g) ! i = rotation_seq (animate g) (key_direction k) f cs"
proof -
  let ?new = "feed_seqs (animate g) (key_direction k) f (collided_cubes g)
      (first_reports en k f g @ second_reports en k f g)"
  have sq: "seqs (force_collisions en k g) = seqs g @ ?new"
    by (simp add: force_collisions_face_seqs [OF assms(1)] feed_seqs_append)
  from assms(2,3) have "seqs (force_collisions en k g) ! i = ?new ! (i - length (seqs g))"
    and "i - length (seqs g) < length ?new"
    unfolding sq by (simp_all add: nth_append)
  then have "seqs (force_collisions en k g) ! i \<in> set ?new"
    by (metis nth_mem)
  then show ?thesis by (rule feed_seqs_shape)
qed

lemma split_at:
  assumes "i < length xs" and "xs ! i = q"
  shows "xs = take i xs @ q # drop (Suc i) xs" and "length (take i xs) = i"
proof -
  show "xs = take i xs @ q # drop (Suc i) xs"
    unfolding assms(2) [symmetric] by (rule id_take_nth_drop [OF assms(1)])
  from assms(1) show "length (take i xs) = i" by simp
qed

lemma turn_hpr_at:
  assumes "i < length (seqs g')" and "seqs g' ! i = rotation_seq a d f cs"
    and "direction g' = d"
  shows "pivot_hpr (advance en i g') f = scale d (side_rotation f)"
  using assms by (simp add: advance_def rotation_seq_Cons rotate_without_anim_def)

lemma scale_opposite:
  "scale (-1) v = (case scale 1 v of (h, p, r) \<Rightarrow> (- h, - p, - r))"
  by (cases v) simp

text \<open>
  C7. An attempt with a face's small key leaves the direction at +1, with its capital key
  at -1. The first step of every sequence the attempt starts turns the face's pivot to
  the face's rotation vector times that direction, so the two turns have the same size and
  opposite signs. In general the first step of the sequence \<^verbatim>\<open>rotate_side\<close> starts turns
  the pivot to the rotation vector times the current direction.
\<close>

theorem direction_by_letter_case:
  "direction (force_collisions en (side_key f) g) = 1 \<and>
   direction (force_collisions en (upper (side_key f)) g) = -1 \<and>
   (\<forall>i. length (seqs g) \<le> i \<and> i < length (seqs (force_collisions en (side_key f) g)) \<longrightarrow>
      pivot_hpr (advance en i (force_collisions en (side_key f) g)) f
        = scale 1 (side_rotation f)) \<and>
   (\<forall>i. length (seqs g) \<le> i \<and> i < length (seqs (force_collisions en (upper (side_key f)) g)) \<longrightarrow>
      pivot_hpr (advance en i (force_collisions en (upper (side_key f)) g)) f
        = scale (-1) (side_rotation f)) \<and>
   scale (-1) (side_rotation f) = (case scale 1 (side_rotation f) of (h, p, r) \<Rightarrow> (- h, - p, - r)) \<and>
   (\<forall>e s. pivot_hpr (advance en (length (seqs s)) (rotate_side e s)) (into_side e)
      = scale (direction s) (side_rotation (into_side e)))"
proof (intro conjI allI impI)
  have kl: "key_face (side_key f) = Some f" and ku: "key_face (upper (side_key f)) = Some f"
    by simp_all
  have dl: "key_direction (side_key f) = 1" and du: "key_direction (upper (side_key f)) = -1"
    by (simp_all add: key_direction_def)
  show l: "direction (force_collisions en (side_key f) g) = 1"
    by (simp add: force_collisions_face_fields [OF kl] dl)
  show u: "direction (force_collisions en (upper (side_key f)) g) = -1"
    by (simp add: force_collisions_face_fields [OF ku] du)
  show "scale (-1) (side_rotation f) = (case scale 1 (side_rotation f) of (h, p, r) \<Rightarrow> (- h, - p, - r))"
    by (rule scale_opposite)
  {
    fix i
    assume h: "length (seqs g) \<le> i \<and> i < length (seqs (force_collisions en (side_key f) g))"
    then obtain cs where "seqs (force_collisions en (side_key f) g) ! i = rotation_seq (animate g) 1 f cs"
      using started_seq_shape [OF kl, of g i en] dl by auto
    with h l show "pivot_hpr (advance en i (force_collisions en (side_key f) g)) f = scale 1 (side_rotation f)"
      by (intro turn_hpr_at) auto
  }
  {
    fix i
    assume h: "length (seqs g) \<le> i \<and> i < length (seqs (force_collisions en (upper (side_key f)) g))"
    then obtain cs where "seqs (force_collisions en (upper (side_key f)) g) ! i = rotation_seq (animate g) (-1) f cs"
      using started_seq_shape [OF ku, of g i en] du by auto
    with h u show "pivot_hpr (advance en i (force_collisions en (upper (side_key f)) g)) f = scale (-1) (side_rotation f)"
      by (intro turn_hpr_at) auto
  }
  {
    fix e s
    show "pivot_hpr (advance en (length (seqs s)) (rotate_side e s)) (into_side e)
      = scale (direction s) (side_rotation (into_side e))"
      by (rule turn_hpr_at [where a = "animate s" and cs = "collided_cubes s"]) simp_all
  }
qed

lemma key_face_T: "key_face CHR ''T'' = Some TOP_SIDE"
  by (simp add: key_face_def)

lemma exact_attempt_seqs:
  assumes "key_face k = Some TOP_SIDE" and "trace g = []" and "cubes g = cubies26"
    and "collided_cubes g = {||}"
  shows "seqs (force_collisions engine_exact k g) =
     seqs g @ [rotation_seq (animate g) (key_direction k) TOP_SIDE {|8, 7, 6, 5, 4, 3, 2, 1, 0|}]"
  using assms(4)
  by (simp add: force_collisions_face_seqs [OF assms(1)] engine_exact_reports [OF assms(1,2,3)]
      fcard_finsert_if fcard_fempty)

theorem direction_by_letter_case_witness:
  "(length (seqs (init_game cubies26)) \<le> 0 \<and>
    0 < length (seqs (force_collisions engine_exact CHR ''t'' (init_game cubies26)))) \<and>
   pivot_hpr (advance engine_exact 0 (force_collisions engine_exact CHR ''t'' (init_game cubies26)))
     TOP_SIDE = (-90, 0, 0) \<and>
   (length (seqs (init_game cubies26)) \<le> 0 \<and>
    0 < length (seqs (force_collisions engine_exact CHR ''T'' (init_game cubies26)))) \<and>
   pivot_hpr (advance engine_exact 0 (force_collisions engine_exact CHR ''T'' (init_game cubies26)))
     TOP_SIDE = (90, 0, 0)"
proof -
  let ?g = "init_game cubies26"
  have l: "length (seqs (force_collisions engine_exact CHR ''t'' ?g)) = 1"
    by (simp add: exact_attempt_seqs [OF key_face_t])
  have u: "length (seqs (force_collisions engine_exact CHR ''T'' ?g)) = 1"
    by (simp add: exact_attempt_seqs [OF key_face_T])
  from direction_by_letter_case [of engine_exact TOP_SIDE ?g] l u
  show ?thesis by (simp add: upper_keys)
qed

subsection \<open>Keystrokes while a rotation runs\<close>

lemma run_append: "run en (xs @ ys) g = run en ys (run en xs g)"
  by (simp add: run_def)

lemma keystroke_dropped: "\<not> keystroke_armed g \<Longrightarrow> keystroke en k g = g"
  by (simp add: keystroke_def)

lemma keystroke_face_disarms:
  assumes "keystroke_armed g" and "key_face k = Some f"
  shows "\<not> keystroke_armed (keystroke en k g)"
  by (simp add: keystroke_armed_eq [OF assms(1)] force_collisions_face_fields [OF assms(2)])

lemma in_flight_disarmed:
  assumes "\<not> keystroke_armed g'" and "i < length (seqs g')"
    and "seqs g' ! i = rotation_seq a d f cs" and "n \<le> 2"
  shows "\<not> keystroke_armed (run en (replicate n i) g')"
proof -
  from split_at [OF assms(2,3)]
  obtain qs qs' where s: "seqs g' = qs @ rotation_seq a d f cs # qs'" and len: "length qs = i"
    by blast
  from assms(4) consider "n = 0" | "n = 1" | "n = 2" by linarith
  then show ?thesis
  proof cases
    case 1
    with assms(1) show ?thesis by (simp add: run_def)
  next
    case 2
    have "\<not> keystroke_armed (run en [length qs] g')"
      using assms(1) by (simp add: run_rotation_1 [OF s])
    with 2 len show ?thesis by simp
  next
    case 3
    have "\<not> keystroke_armed (run en [length qs, length qs] g')"
      using assms(1) by (simp add: run_rotation_2 [OF s])
    with 3 len show ?thesis by (simp add: numeral_2_eq_2)
  qed
qed

text \<open>
  A keystroke with a face key that the armed handler takes disarms the handler. For
  every sequence this keystroke has started, before its first step, after its turn and
  after its re-parent step (the reset has not run), a further keystroke changes nothing
  in the game: it is neither handled nor kept. So the game after the sequence has run to
  its end is the same with and without the further keystroke.
\<close>

theorem keystroke_in_flight_dropped:
  assumes "keystroke_armed g" and "key_face k = Some f"
  shows "\<not> keystroke_armed (keystroke en k g) \<and>
    (\<forall>i n k'. length (seqs g) \<le> i \<and> i < length (seqs (keystroke en k g)) \<and> n \<le> (2::nat) \<longrightarrow>
       keystroke en k' (run en (replicate n i) (keystroke en k g))
         = run en (replicate n i) (keystroke en k g) \<and>
       seqs (keystroke en k' (run en (replicate n i) (keystroke en k g)))
         = seqs (run en (replicate n i) (keystroke en k g)) \<and>
       run en (replicate (3 - n) i) (keystroke en k' (run en (replicate n i) (keystroke en k g)))
         = run en (replicate 3 i) (keystroke en k g))"
proof (intro conjI allI impI)
  let ?g1 = "keystroke en k g"
  show d: "\<not> keystroke_armed ?g1"
    by (rule keystroke_face_disarms [OF assms])
  fix i n :: nat and k' :: char
  assume h: "length (seqs g) \<le> i \<and> i < length (seqs ?g1) \<and> n \<le> 2"
  have eq: "?g1 = force_collisions en k (g\<lparr>keystroke_armed := False\<rparr>)"
    by (rule keystroke_armed_eq [OF assms(1)])
  from h have "length (seqs (g\<lparr>keystroke_armed := False\<rparr>)) \<le> i"
    and "i < length (seqs (force_collisions en k (g\<lparr>keystroke_armed := False\<rparr>)))"
    unfolding eq by simp_all
  from started_seq_shape [OF assms(2) this] obtain cs where
    sh: "seqs ?g1 ! i = rotation_seq (animate g) (key_direction k) f cs"
    unfolding eq by auto
  from h have il: "i < length (seqs ?g1)" and n2: "n \<le> 2" by simp_all
  have off: "\<not> keystroke_armed (run en (replicate n i) ?g1)"
    by (rule in_flight_disarmed [OF d il sh n2])
  show id: "keystroke en k' (run en (replicate n i) ?g1) = run en (replicate n i) ?g1"
    by (rule keystroke_dropped [OF off])
  show "seqs (keystroke en k' (run en (replicate n i) ?g1)) = seqs (run en (replicate n i) ?g1)"
    by (simp only: id)
  from n2 have "replicate n i @ replicate (3 - n) i = replicate 3 i"
    by (simp add: replicate_add [symmetric])
  then have "run en (replicate 3 i) ?g1 = run en (replicate (3 - n) i) (run en (replicate n i) ?g1)"
    by (metis run_append)
  then show "run en (replicate (3 - n) i) (keystroke en k' (run en (replicate n i) ?g1))
      = run en (replicate 3 i) ?g1"
    by (simp only: id)
qed

lemma run_rotation_3_hpr:
  assumes "seqs g' = qs @ rotation_seq a d f cs # qs'" and "direction g' = d"
  shows "pivot_hpr (run en [length qs, length qs, length qs] g') f = scale d (side_rotation f)"
  using assms(2) by (simp add: run_rotation_3 [OF assms(1)] run_rotation_2 [OF assms(1)])

lemma exact_keystroke_t:
  "seqs (keystroke engine_exact CHR ''t'' (init_game cubies26)) =
     [] @ rotation_seq True 1 TOP_SIDE {|8, 7, 6, 5, 4, 3, 2, 1, 0|} # []"
  "direction (keystroke engine_exact CHR ''t'' (init_game cubies26)) = 1"
  by (simp_all add: keystroke_armed_eq exact_attempt_seqs [OF key_face_t]
      force_collisions_face_fields [OF key_face_t] key_direction_def isupper_def)

theorem keystroke_in_flight_dropped_witness:
  "keystroke_armed (init_game cubies26) \<and> key_face CHR ''t'' = Some TOP_SIDE \<and>
   (length (seqs (init_game cubies26)) \<le> 0 \<and>
    0 < length (seqs (keystroke engine_exact CHR ''t'' (init_game cubies26))) \<and> (1::nat) \<le> 2) \<and>
   keystroke engine_exact CHR ''T''
       (run engine_exact [0] (keystroke engine_exact CHR ''t'' (init_game cubies26)))
     = run engine_exact [0] (keystroke engine_exact CHR ''t'' (init_game cubies26)) \<and>
   pivot_hpr (run engine_exact [0, 0]
       (keystroke engine_exact CHR ''T''
          (run engine_exact [0] (keystroke engine_exact CHR ''t'' (init_game cubies26)))))
     TOP_SIDE = (-90, 0, 0)"
proof -
  let ?g = "init_game cubies26"
  let ?g1 = "keystroke engine_exact CHR ''t'' ?g"
  have a: "keystroke_armed ?g" by simp
  have h: "length (seqs ?g) \<le> 0 \<and> 0 < length (seqs ?g1) \<and> (1::nat) \<le> 2"
    by (simp add: exact_keystroke_t)
  from keystroke_in_flight_dropped [OF a key_face_t, of engine_exact]
  have "\<forall>i n k'. length (seqs ?g) \<le> i \<and> i < length (seqs ?g1) \<and> n \<le> (2::nat) \<longrightarrow>
       keystroke engine_exact k' (run engine_exact (replicate n i) ?g1)
         = run engine_exact (replicate n i) ?g1 \<and>
       seqs (keystroke engine_exact k' (run engine_exact (replicate n i) ?g1))
         = seqs (run engine_exact (replicate n i) ?g1) \<and>
       run engine_exact (replicate (3 - n) i)
           (keystroke engine_exact k' (run engine_exact (replicate n i) ?g1))
         = run engine_exact (replicate 3 i) ?g1"
    by (rule conjunct2)
  note c = this [rule_format, of 0 1 "CHR ''T''", OF h]
  have r: "replicate 1 (0::nat) = [0]" "replicate (3 - 1) (0::nat) = [0, 0]"
    "replicate 3 (0::nat) = [0, 0, 0]"
    by (simp_all add: numeral_2_eq_2 numeral_3_eq_3)
  from c have id: "keystroke engine_exact CHR ''T'' (run engine_exact [0] ?g1)
      = run engine_exact [0] ?g1"
    unfolding r by (rule conjunct1)
  from c have fin: "run engine_exact [0, 0]
        (keystroke engine_exact CHR ''T'' (run engine_exact [0] ?g1))
      = run engine_exact [0, 0, 0] ?g1"
    unfolding r by (elim conjE)
  have "pivot_hpr (run engine_exact [length ([]::step list list), length ([]::step list list),
      length ([]::step list list)] ?g1) TOP_SIDE = scale 1 (side_rotation TOP_SIDE)"
    by (rule run_rotation_3_hpr [OF exact_keystroke_t])
  then have hpr: "pivot_hpr (run engine_exact [0, 0, 0] ?g1) TOP_SIDE = (-90, 0, 0)"
    by simp
  from hpr have "pivot_hpr (run engine_exact [0, 0]
        (keystroke engine_exact CHR ''T'' (run engine_exact [0] ?g1))) TOP_SIDE = (-90, 0, 0)"
    by (simp only: fin)
  with a h id key_face_t show ?thesis by blast
qed

subsection \<open>An attempt that misses the quorum\<close>

lemma force_traverse_other_key:
  "key_face k = None \<Longrightarrow> k \<noteq> CHR '' '' \<Longrightarrow> k \<notin> set ''1234567'' \<Longrightarrow>
   force_traverse en k g = g\<lparr>direction := key_direction k, keystroke_armed := True\<rparr>"
  by (simp add: force_traverse_def key_face_def key_direction_def split: if_splits)

text \<open>
  C4, at a game where it fails. The first keystroke \<^verbatim>\<open>t\<close> of a game, with eight cubies
  reported for the top face: eight cubies are collected, no sequence is started, and the
  handler stays disarmed, so the next keystroke is lost. A key that selects no traverser
  re-arms the handler.
\<close>

theorem no_quorum_input_not_rearmed:
  "fcard (collided_cubes (keystroke engine_eight CHR ''t'' (init_game cubies26))) = 8 \<and>
   seqs (keystroke engine_eight CHR ''t'' (init_game cubies26)) = [] \<and>
   \<not> keystroke_armed (keystroke engine_eight CHR ''t'' (init_game cubies26)) \<and>
   keystroke engine_eight CHR ''t'' (keystroke engine_eight CHR ''t'' (init_game cubies26))
     = keystroke engine_eight CHR ''t'' (init_game cubies26) \<and>
   keystroke_armed (keystroke engine_eight CHR ''x'' (init_game cubies26))"
proof -
  let ?g = "init_game cubies26"
  have off: "\<not> keystroke_armed (keystroke engine_eight CHR ''t'' ?g)"
    by (rule keystroke_face_disarms [OF _ key_face_t]) simp
  have x: "key_face CHR ''x'' = None" by (simp add: key_face_def)
  have "force_collisions engine_eight CHR ''x'' (?g\<lparr>keystroke_armed := False\<rparr>)
      = print_key_on_screen CHR ''x'' (shift_cubes (-15)
          ((shift_cubes 15 (?g\<lparr>keystroke_armed := False, direction := 1, keystroke_armed := True\<rparr>))
            \<lparr>direction := 1, keystroke_armed := True\<rparr>))"
    by (simp add: force_collisions_def force_traverse_other_key [OF x] key_direction_def
        isupper_def Let_def)
  then have on: "keystroke_armed (keystroke engine_eight CHR ''x'' ?g)"
    by (simp add: keystroke_armed_eq)
  have again: "keystroke engine_eight CHR ''t'' (keystroke engine_eight CHR ''t'' ?g)
      = keystroke engine_eight CHR ''t'' ?g"
    by (rule keystroke_dropped [OF off])
  have card: "fcard (collided_cubes (keystroke engine_eight CHR ''t'' ?g)) = 8"
    by (simp add: keystroke_armed_eq force_collisions_face_fields [OF key_face_t]
        engine_eight_reports [OF key_face_t] fcard_finsert_if fcard_fempty)
  have none: "seqs (keystroke engine_eight CHR ''t'' ?g) = []"
    by (simp add: keystroke_armed_eq force_collisions_face_seqs [OF key_face_t]
        engine_eight_reports [OF key_face_t] fcard_finsert_if fcard_fempty)
  from card none off again on show ?thesis by (intro conjI)
qed

subsection \<open>Camera presets\<close>

lemma look_at_fields [simp]:
  "trace (look_at_cube_side k g) = trace g @ [EvLookAtCubeSide k]"
  "keystroke_armed (look_at_cube_side k g) = keystroke_armed g"
  "direction (look_at_cube_side k g) = direction g"
  "seqs (look_at_cube_side k g) = seqs g"
  "cubes (look_at_cube_side k g) = cubes g"
  "collided_cubes (look_at_cube_side k g) = collided_cubes g"
  by (simp_all add: look_at_cube_side_def print_info_on_screen_def log_def Let_def split_def)

lemma look_at_hpr:
  "tb_hpr (look_at_cube_side k g) =
     (if k = CHR ''1'' then (0, 0, 0)
      else if k = CHR ''2'' then (0, 180, 180)
      else if k = CHR ''3'' then (90, 0, 0)
      else if k = CHR ''4'' then (-90, 0, 0)
      else if k = CHR ''5'' then (0, 90, 0)
      else if k = CHR ''6'' then (0, -90, 0)
      else (case tb_hpr g of (h, p, r) \<Rightarrow> (h, p, r - 90)))"
  by (simp add: look_at_cube_side_def print_info_on_screen_def log_def Let_def split_def)

lemma force_traverse_digit:
  "k \<in> set ''1234567'' \<Longrightarrow>
   force_traverse en k g = (look_at_cube_side k (g\<lparr>direction := 1\<rparr>))\<lparr>keystroke_armed := True\<rparr>"
  by (auto simp add: force_traverse_def isupper_def)

lemma force_collisions_digit:
  assumes "k \<in> set ''1234567''"
  shows "force_collisions en k g =
     print_key_on_screen k (shift_cubes (-15)
       ((look_at_cube_side k
           ((shift_cubes 15
              ((look_at_cube_side k (g\<lparr>direction := 1\<rparr>))\<lparr>keystroke_armed := True\<rparr>))
            \<lparr>direction := 1\<rparr>))
        \<lparr>keystroke_armed := True\<rparr>))"
  by (simp add: force_collisions_def Let_def force_traverse_digit [OF assms])

lemma count_map_set_fluid_pos_look [simp]:
  "count_list (map (\<lambda>c. EvSetFluidPos c d) cs) (EvLookAtCubeSide k) = 0"
  by (induction cs) simp_all

text \<open>
  C10. An attempt with one of the keys 1 to 7 calls \<^verbatim>\<open>look_at_cube_side\<close> twice, once in
  each call of \<^verbatim>\<open>force_traverse\<close>. For the keys 1 to 6 the second call changes nothing:
  the camera stands where one call puts it. For the key 7 each call takes 90 from the
  roll, so the attempt takes 180.
\<close>

theorem camera_preset_called_twice:
  "\<forall>k \<in> set ''1234567''.
     count_list (events_since g (force_collisions en k g)) (EvLookAtCubeSide k) = 2 \<and>
     (k \<noteq> CHR ''7'' \<longrightarrow>
        tb_hpr (look_at_cube_side k (look_at_cube_side k g)) = tb_hpr (look_at_cube_side k g) \<and>
        tb_hpr (force_collisions en k g) = tb_hpr (look_at_cube_side k g)) \<and>
     (k = CHR ''7'' \<longrightarrow>
        tb_hpr (look_at_cube_side k g) = (case tb_hpr g of (h, p, r) \<Rightarrow> (h, p, r - 90)) \<and>
        tb_hpr (force_collisions en k g) = (case tb_hpr g of (h, p, r) \<Rightarrow> (h, p, r - 180)))"
proof
  fix k assume k: "k \<in> set ''1234567''"
  have cnt: "count_list (events_since g (force_collisions en k g)) (EvLookAtCubeSide k) = 2"
    by (simp add: force_collisions_digit [OF k] events_since_def)
  have hpr: "tb_hpr (force_collisions en k g) =
      tb_hpr (look_at_cube_side k ((look_at_cube_side k g)))"
    by (simp add: force_collisions_digit [OF k] look_at_hpr)
  have abs: "tb_hpr (look_at_cube_side k (look_at_cube_side k g)) = tb_hpr (look_at_cube_side k g)"
    if "k \<noteq> CHR ''7''"
    using k that by (auto simp add: look_at_hpr)
  have rel1: "tb_hpr (look_at_cube_side k g) = (case tb_hpr g of (h, p, r) \<Rightarrow> (h, p, r - 90))"
    if "k = CHR ''7''"
    using that by (simp add: look_at_hpr)
  have rel2: "tb_hpr (look_at_cube_side k (look_at_cube_side k g))
      = (case tb_hpr g of (h, p, r) \<Rightarrow> (h, p, r - 180))"
    if "k = CHR ''7''"
    using that by (simp add: look_at_hpr split_def)
  have a: "tb_hpr (look_at_cube_side k (look_at_cube_side k g)) = tb_hpr (look_at_cube_side k g) \<and>
        tb_hpr (force_collisions en k g) = tb_hpr (look_at_cube_side k g)"
    if n: "k \<noteq> CHR ''7''"
    using abs [OF n] by (simp only: hpr)
  have r: "tb_hpr (look_at_cube_side k g) = (case tb_hpr g of (h, p, r) \<Rightarrow> (h, p, r - 90)) \<and>
        tb_hpr (force_collisions en k g) = (case tb_hpr g of (h, p, r) \<Rightarrow> (h, p, r - 180))"
    if e: "k = CHR ''7''"
    using rel1 [OF e] rel2 [OF e] by (simp only: hpr)
  from cnt a r
  show "count_list (events_since g (force_collisions en k g)) (EvLookAtCubeSide k) = 2 \<and>
     (k \<noteq> CHR ''7'' \<longrightarrow>
        tb_hpr (look_at_cube_side k (look_at_cube_side k g)) = tb_hpr (look_at_cube_side k g) \<and>
        tb_hpr (force_collisions en k g) = tb_hpr (look_at_cube_side k g)) \<and>
     (k = CHR ''7'' \<longrightarrow>
        tb_hpr (look_at_cube_side k g) = (case tb_hpr g of (h, p, r) \<Rightarrow> (h, p, r - 90)) \<and>
        tb_hpr (force_collisions en k g) = (case tb_hpr g of (h, p, r) \<Rightarrow> (h, p, r - 180)))"
    by blast
qed

theorem camera_preset_called_twice_witness:
  "CHR ''7'' \<in> set ''1234567'' \<and>
   count_list (events_since (init_game cubies26)
      (force_collisions engine_exact CHR ''7'' (init_game cubies26))) (EvLookAtCubeSide CHR ''7'') = 2 \<and>
   tb_hpr (force_collisions engine_exact CHR ''7'' (init_game cubies26)) = (0, 0, -180) \<and>
   CHR ''2'' \<in> set ''1234567'' \<and>
   tb_hpr (force_collisions engine_exact CHR ''2'' (init_game cubies26)) = (0, 180, 180)"
  using camera_preset_called_twice [of "init_game cubies26" engine_exact]
  by (simp add: look_at_hpr)

subsection \<open>Shuffle\<close>

lemma shuffle_keys_eq: "shuffle_keys = ''tTdDlLrRfFbBvVcChH''"
  by (simp add: shuffle_keys_def mapping_sides_def upper_keys)


lemma length_choices [simp]: "length (choices e population k) = k"
  by (simp add: choices_def)


lemma moves_of_append [simp]: "moves_of (xs @ ys) = moves_of xs @ moves_of ys"
  by (induction xs rule: moves_of.induct) simp_all

lemma moves_of_played [simp]:
  "moves_of (concat (map (\<lambda>key. [ForceCollisions key, Wait w]) ks)) = ks"
  by (induction ks) simp_all





subsection \<open>A keystroke while the shuffle turns a face\<close>

lemma not_displaced_balanced: "balanced g \<Longrightarrow> \<not> displaced (g\<lparr>direction := d\<rparr>)"
  by (simp add: displaced_def balanced_def)

lemma displaced_after_shift_balanced:
  assumes "key_face k = Some f" and "balanced g" and "cubes g = cubies26"
  shows "displaced ((shift_cubes 15 (force_traverse en k g))\<lparr>direction := d\<rparr>)"
  using assms(2,3)
  by (simp add: displaced_def balanced_def force_traverse_face [OF assms(1)] traverse_trace
      count_map_set_fluid_pos_same cubies26_def)

lemma engine_exact_reports_balanced:
  assumes "key_face k = Some f" and "balanced g" and "cubes g = cubies26"
  shows "first_reports engine_exact k f g = take (side_num f) [0, 1, 2, 3, 4, 5, 6, 7, 8]"
    and "second_reports engine_exact k f g = []"
  using not_displaced_balanced [OF assms(2)] displaced_after_shift_balanced [OF assms]
  by (simp_all add: first_reports_def second_reports_def engine_exact_def)

lemma force_traverse_space:
  "force_traverse en CHR '' '' g = (randomize en (g\<lparr>direction := 1\<rparr>))\<lparr>keystroke_armed := True\<rparr>"
  by (simp add: force_traverse_def isupper_def)

lemma randomize_fields [simp]:
  "trace (randomize en g) = trace g"
  "cubes (randomize en g) = cubes g"
  "direction (randomize en g) = direction g"
  "animate (randomize en g) = animate g"
  "collided_cubes (randomize en g) = collided_cubes g"
  "keystroke_armed (randomize en g) = keystroke_armed g"
  "randomizing (randomize en g)"
  by (simp_all add: randomize_def Let_def)

lemma randomize_again: "randomizing g \<Longrightarrow> randomize en g = g"
  by (simp add: randomize_def)

lemma choices_Suc:
  "choices e population (Suc k) =
     population ! (e 1 mod length population) # choices (\<lambda>i. e (Suc i)) population k"
proof -
  have "[0..<Suc k] = 0 # map Suc [0..<k]"
    by (simp add: upt_conv_Cons map_Suc_upt del: upt_Suc)
  then show ?thesis by (simp add: choices_def comp_def del: upt_Suc)
qed

lemma randint_pos: "\<exists>n. randint e 30 60 = Suc n"
  by (simp add: randint_def)

lemma randomize_seq_head:
  assumes "\<not> randomizing g"
  shows "\<exists>rest. seqs (randomize en g) = seqs g @
     [TurnOnOffAnimate False # Wait 1 # ForceCollisions (shuffle_keys ! (entropy en g 1 mod 18))
        # rest]"
proof -
  from randint_pos obtain n where n: "randint (entropy en g) 30 60 = Suc n" by blast
  have len: "length shuffle_keys = 18" by (simp add: shuffle_keys_eq)
  from assms show ?thesis
    by (simp add: randomize_def Let_def n choices_Suc len)
qed

lemma balanced_fields [simp]:
  "balanced (g\<lparr>direction := d\<rparr>) = balanced g"
  "balanced (g\<lparr>keystroke_armed := b\<rparr>) = balanced g"
  "balanced (g\<lparr>seqs := q\<rparr>) = balanced g"
  "balanced (g\<lparr>animate := a\<rparr>) = balanced g"
  "balanced (randomize en g) = balanced g"
  "balanced (print_key_on_screen k g) = balanced g"
  by (simp_all add: balanced_def)

lemma space_keystroke:
  "keystroke_armed (keystroke engine_exact CHR '' '' (init_game cubies26))"
  "randomizing (keystroke engine_exact CHR '' '' (init_game cubies26))"
  "collided_cubes (keystroke engine_exact CHR '' '' (init_game cubies26)) = {||}"
  "cubes (keystroke engine_exact CHR '' '' (init_game cubies26)) = cubies26"
  "balanced (keystroke engine_exact CHR '' '' (init_game cubies26))"
  "\<exists>rest. seqs (keystroke engine_exact CHR '' '' (init_game cubies26)) =
     [TurnOnOffAnimate False # Wait 1 # ForceCollisions CHR ''T'' # rest]"
proof -
  let ?g = "(init_game cubies26)\<lparr>keystroke_armed := False\<rparr>"
  let ?a = "(randomize engine_exact (?g\<lparr>direction := 1\<rparr>))\<lparr>keystroke_armed := True\<rparr>"
  have again: "randomize engine_exact ((shift_cubes 15 ?a)\<lparr>direction := 1\<rparr>)
      = (shift_cubes 15 ?a)\<lparr>direction := 1\<rparr>"
    by (rule randomize_again) simp
  have k: "keystroke engine_exact CHR '' '' (init_game cubies26) =
      print_key_on_screen CHR '' ''
        (shift_cubes (-15) (((shift_cubes 15 ?a)\<lparr>direction := 1\<rparr>)\<lparr>keystroke_armed := True\<rparr>))"
    by (simp add: keystroke_armed_eq force_collisions_def Let_def force_traverse_space again)
  show "keystroke_armed (keystroke engine_exact CHR '' '' (init_game cubies26))"
    and "randomizing (keystroke engine_exact CHR '' '' (init_game cubies26))"
    and "collided_cubes (keystroke engine_exact CHR '' '' (init_game cubies26)) = {||}"
    and "cubes (keystroke engine_exact CHR '' '' (init_game cubies26)) = cubies26"
    unfolding k by simp_all
  show "balanced (keystroke engine_exact CHR '' '' (init_game cubies26))"
    unfolding k by (simp add: balanced_def count_map_set_fluid_pos_same)
  have n: "\<not> randomizing (?g\<lparr>direction := 1\<rparr>)" by simp
  from randomize_seq_head [OF n, of engine_exact]
  show "\<exists>rest. seqs (keystroke engine_exact CHR '' '' (init_game cubies26)) =
     [TurnOnOffAnimate False # Wait 1 # ForceCollisions CHR ''T'' # rest]"
    unfolding k by (simp add: engine_exact_def shuffle_keys_eq)
qed

lemma turn_hpr_at_gen:
  assumes "i < length (seqs g')" and "seqs g' ! i = rotation_seq a d f cs"
  shows "pivot_hpr (advance en i g') f = scale (if a then d else direction g') (side_rotation f)"
  using assms by (simp add: advance_def rotation_seq_Cons rotate_without_anim_def)

lemma advance_head:
  "seqs g = (st # rest) # qs \<Longrightarrow> advance en 0 g = exec_step en st (g\<lparr>seqs := rest # qs\<rparr>)"
  by (simp add: advance_def)

lemma shuffle_turning:
  "keystroke_armed game_shuffle_turning"
  "randomizing game_shuffle_turning"
  "direction game_shuffle_turning = -1"
  "length (seqs game_shuffle_turning) = 2"
  "seqs game_shuffle_turning ! 1 = rotation_seq False (-1) TOP_SIDE {|8, 7, 6, 5, 4, 3, 2, 1, 0|}"
  "balanced game_shuffle_turning"
  "cubes game_shuffle_turning = cubies26"
  "collided_cubes game_shuffle_turning = {|8, 7, 6, 5, 4, 3, 2, 1, 0|}"
proof -
  let ?gk = "keystroke engine_exact CHR '' '' (init_game cubies26)"
  from space_keystroke(6) obtain rest where
    sq: "seqs ?gk = [TurnOnOffAnimate False # Wait 1 # ForceCollisions CHR ''T'' # rest]"
    by blast
  let ?s1 = "exec_step engine_exact (TurnOnOffAnimate False)
      (?gk\<lparr>seqs := [Wait 1 # ForceCollisions CHR ''T'' # rest]\<rparr>)"
  have a1: "advance engine_exact 0 ?gk = ?s1"
    by (simp add: advance_head [OF sq])
  have q1: "seqs ?s1 = (Wait 1 # ForceCollisions CHR ''T'' # rest) # []"
    by (simp add: turn_on_off_anmiate_def)
  let ?s2 = "exec_step engine_exact (Wait 1) (?s1\<lparr>seqs := [ForceCollisions CHR ''T'' # rest]\<rparr>)"
  have a2: "advance engine_exact 0 ?s1 = ?s2"
    by (rule advance_head [OF q1])
  have q2: "seqs ?s2 = (ForceCollisions CHR ''T'' # rest) # []"
    by simp
  let ?s = "?s2\<lparr>seqs := [rest]\<rparr>"
  have a3: "advance engine_exact 0 ?s2 = exec_step engine_exact (ForceCollisions CHR ''T'') ?s"
    by (rule advance_head [OF q2])
  have "game_shuffle_turning
      = advance engine_exact 0 (advance engine_exact 0 (advance engine_exact 0 ?gk))"
    by (simp add: game_shuffle_turning_def run_def)
  also have "\<dots> = exec_step engine_exact (ForceCollisions CHR ''T'') ?s"
    by (simp only: a1 a2 a3)
  finally have G: "game_shuffle_turning = force_collisions engine_exact CHR ''T'' ?s"
    by (simp only: exec_step.simps)
  have s: "keystroke_armed ?s" "randomizing ?s" "\<not> animate ?s" "balanced ?s"
    "cubes ?s = cubies26" "collided_cubes ?s = {||}" "seqs ?s = [rest]"
    using space_keystroke(1-5) by (simp_all add: turn_on_off_anmiate_def balanced_def)
  note r = engine_exact_reports_balanced [OF key_face_T s(4,5)]
  note fl = force_collisions_face_fields [OF key_face_T, of engine_exact ?s]
  show "keystroke_armed game_shuffle_turning" unfolding G fl by (rule s(1))
  show "randomizing game_shuffle_turning" unfolding G fl by (rule s(2))
  show "direction game_shuffle_turning = -1"
    unfolding G fl by (simp add: key_direction_def isupper_def)
  show "cubes game_shuffle_turning = cubies26" unfolding G fl by (rule s(5))
  show "collided_cubes game_shuffle_turning = {|8, 7, 6, 5, 4, 3, 2, 1, 0|}"
    unfolding G fl r s(6) by auto
  have sq': "seqs game_shuffle_turning
      = [rest, rotation_seq False (-1) TOP_SIDE {|8, 7, 6, 5, 4, 3, 2, 1, 0|}]"
    unfolding G force_collisions_face_seqs [OF key_face_T] r s(6,7)
    using s(3) by (simp add: key_direction_def isupper_def fcard_finsert_if fcard_fempty)
  show "length (seqs game_shuffle_turning) = 2" by (simp add: sq')
  show "seqs game_shuffle_turning ! 1
      = rotation_seq False (-1) TOP_SIDE {|8, 7, 6, 5, 4, 3, 2, 1, 0|}"
    by (simp add: sq')
  show "balanced game_shuffle_turning"
    unfolding G using s(4,5)
    by (simp add: balanced_def force_collisions_face_trace [OF key_face_T]
        count_map_set_fluid_pos_same)
qed

text \<open>
  C3, at a game where it fails. The space key starts the shuffle and, being no face key,
  arms the handler again. When the shuffle's first move (the key \<^verbatim>\<open>T\<close>) has started its
  rotation and the sequence of that rotation has not run yet, the keystroke \<^verbatim>\<open>t\<close> is
  taken: it sets the direction to +1, and the waiting turn, made for -1, then turns the
  pivot the other way.
\<close>

theorem keystroke_during_shuffle_turn_accepted:
  "randomizing game_shuffle_turning \<and>
   seqs game_shuffle_turning ! 1
     = [RotateWithoutAnim TOP_SIDE, ReparentCubes TOP_SIDE {|8, 7, 6, 5, 4, 3, 2, 1, 0|},
        ResetStep {|8, 7, 6, 5, 4, 3, 2, 1, 0|}] \<and>
   keystroke_armed game_shuffle_turning \<and>
   direction game_shuffle_turning = -1 \<and>
   direction (keystroke engine_exact CHR ''t'' game_shuffle_turning) = 1 \<and>
   pivot_hpr (advance engine_exact 1 game_shuffle_turning) TOP_SIDE = (90, 0, 0) \<and>
   pivot_hpr (advance engine_exact 1 (keystroke engine_exact CHR ''t'' game_shuffle_turning)) TOP_SIDE
     = (-90, 0, 0)"
proof -
  let ?G = "game_shuffle_turning"
  let ?K = "keystroke engine_exact CHR ''t'' ?G"
  have K: "?K = force_collisions engine_exact CHR ''t'' (?G\<lparr>keystroke_armed := False\<rparr>)"
    by (rule keystroke_armed_eq [OF shuffle_turning(1)])
  have d: "direction ?K = 1"
    unfolding K by (simp add: force_collisions_face_fields [OF key_face_t] key_direction_def
        isupper_def)
  have sq: "seqs ?K = seqs ?G @ feed_seqs (animate ?G) 1 TOP_SIDE (collided_cubes ?G)
      (first_reports engine_exact CHR ''t'' TOP_SIDE (?G\<lparr>keystroke_armed := False\<rparr>)
       @ second_reports engine_exact CHR ''t'' TOP_SIDE (?G\<lparr>keystroke_armed := False\<rparr>))"
    unfolding K
    by (simp add: force_collisions_face_seqs [OF key_face_t] feed_seqs_append key_direction_def
        isupper_def)
  have l: "1 < length (seqs ?K)" unfolding sq by (simp add: shuffle_turning(4))
  have n: "seqs ?K ! 1 = rotation_seq False (-1) TOP_SIDE {|8, 7, 6, 5, 4, 3, 2, 1, 0|}"
    unfolding sq using shuffle_turning(4,5) by (simp add: nth_append)
  have l': "1 < length (seqs ?G)" by (simp add: shuffle_turning(4))
  have h1: "pivot_hpr (advance engine_exact 1 ?G) TOP_SIDE = (90, 0, 0)"
    using turn_hpr_at_gen [OF l' shuffle_turning(5), of engine_exact] shuffle_turning(3) by simp
  have h2: "pivot_hpr (advance engine_exact 1 ?K) TOP_SIDE = (-90, 0, 0)"
    using turn_hpr_at_gen [OF l n, of engine_exact] d by simp
  have q: "seqs ?G ! 1 = [RotateWithoutAnim TOP_SIDE, ReparentCubes TOP_SIDE {|8, 7, 6, 5, 4, 3, 2, 1, 0|},
        ResetStep {|8, 7, 6, 5, 4, 3, 2, 1, 0|}]"
    using shuffle_turning(5) by (simp add: rotation_seq_def)
  from shuffle_turning(1,2,3) q d h1 h2 show ?thesis by blast
qed

end
